theory Spec2Isabelle
  imports Complex_Main "HOL-Library.AList"
begin

section \<open>The DECam crosstalk table converter (makeCrosstalkDecam.py)\<close>

text \<open>
  A shallow embedding of \<^verbatim>\<open>readFile\<close> and \<^verbatim>\<open>makeDetectorCrosstalk\<close>.

  \<^item> A Python \<^verbatim>\<open>str\<close> is a \<open>string\<close>; a character stands for a code point below 256.
  \<^item> A Python \<^verbatim>\<open>dict\<close> (and the \<^verbatim>\<open>PropertyList\<close>) is an association list: looking a
    key up is \<open>map_of\<close>, storing is \<open>AList.update\<close>, which keeps the position of a
    key that is present and appends a new one, as the insertion order of a dict does.
  \<^item> A raised exception is a value of \<open>error\<close>.
  \<^item> The builtin \<^verbatim>\<open>float\<close> is not code of the repository. The model takes it as the
    parameter \<open>flt\<close>: \<open>flt s = None\<close> where \<^verbatim>\<open>float(s)\<close> raises \<^verbatim>\<open>ValueError\<close>, and
    \<open>flt s = Some x\<close> where it returns the float \<open>x\<close>. The type \<open>'f\<close> of floats is
    left open; its \<open>0\<close> is the value numpy fills a zero array with.
\<close>

subsection \<open>Strings\<close>

text \<open>What \<^verbatim>\<open>str.isspace\<close> accepts among the code points below 256.\<close>

definition isspace :: "char \<Rightarrow> bool" where
  "isspace c \<longleftrightarrow> c \<in> set [CHR 0x09, CHR 0x0A, CHR 0x0B, CHR 0x0C, CHR 0x0D,
     CHR 0x1C, CHR 0x1D, CHR 0x1E, CHR 0x1F, CHR 0x20, CHR 0x85, CHR 0xA0]"

text \<open>\<^verbatim>\<open>line.strip()\<close>\<close>

definition strip :: "string \<Rightarrow> string" where
  "strip s = rev (dropWhile isspace (rev (dropWhile isspace s)))"

text \<open>\<^verbatim>\<open>li.startswith('#')\<close>\<close>

definition startswith_hash :: "string \<Rightarrow> bool" where
  "startswith_hash li = (case li of [] \<Rightarrow> False | c # _ \<Rightarrow> c = CHR ''#'')"

text \<open>
  \<^verbatim>\<open>li.split()\<close>: the maximal runs of non-whitespace characters, in order. The first
  argument of \<open>split_from\<close> is the run read so far.
\<close>

fun split_from :: "string \<Rightarrow> string \<Rightarrow> string list" where
  "split_from tok [] = (if tok = [] then [] else [tok])"
| "split_from tok (c # cs) =
     (if isspace c then (if tok = [] then split_from [] cs else tok # split_from [] cs)
      else split_from (tok @ [c]) cs)"

definition split :: "string \<Rightarrow> string list" where
  "split li = split_from [] li"

text \<open>\<^verbatim>\<open>s.replace(amp, "")\<close> for the one-character string \<open>amp\<close>: every occurrence goes.\<close>

definition replace_empty :: "char \<Rightarrow> string \<Rightarrow> string" where
  "replace_empty amp s = filter (\<lambda>c. c \<noteq> amp) s"

text \<open>
  \<^verbatim>\<open>for line in f\<close>: the text of the file cut after each newline; every line but
  possibly the last ends with its newline.
\<close>

fun file_lines :: "string \<Rightarrow> string list" where
  "file_lines [] = []"
| "file_lines (c # cs) =
     (if c = CHR 0x0A then [c] # file_lines cs
      else (case file_lines cs of [] \<Rightarrow> [[c]] | l # ls \<Rightarrow> (c # l) # ls))"

subsection \<open>Errors, matrices and the dictionary of a detector\<close>

datatype error =
    IndexError            \<comment> \<open>\<^verbatim>\<open>elem[i]\<close> on a line with too few tokens\<close>
  | ValueError string     \<comment> \<open>\<^verbatim>\<open>float(elem[2])\<close> on a token that is no number\<close>
  | RuntimeError string   \<comment> \<open>\<^verbatim>\<open>raise RuntimeError(f"Unknown amp: ...")\<close>\<close>
  | KeyError string       \<comment> \<open>a dictionary lookup of a missing key\<close>

type_synonym 'f matrix = "'f list list"

text \<open>\<^verbatim>\<open>np.zeros_like([], shape=(2, 2))\<close>\<close>

definition zeros22 :: "'f::zero matrix" where
  "zeros22 = [[0, 0], [0, 0]]"

text \<open>
  \<^verbatim>\<open>m[i][j] = v\<close>. The arrays of \<^verbatim>\<open>readFile\<close> all have shape (2, 2) and the indices
  come from \<open>ampIndexMap\<close> (lemmas \<open>shaped_readLines\<close> and \<open>parseLine_amp_bound\<close>), so
  the write is never out of range.
\<close>

definition setitem2 :: "'f matrix \<Rightarrow> nat \<Rightarrow> nat \<Rightarrow> 'f \<Rightarrow> 'f matrix" where
  "setitem2 m i j v = m[i := (m ! i)[j := v]]"

text \<open>
  The dictionary stored under a victim detector. The keys \<^verbatim>\<open>'DETECTOR'\<close> and
  \<^verbatim>\<open>'DETECTOR_SERIAL'\<close> are absent (\<open>None\<close>) until a record sets them.
\<close>

record 'f dataDict =
  metadata :: "(string \<times> string) list"
  interChip :: "(string \<times> 'f matrix) list"
  crosstalkShape :: "nat \<times> nat"
  hasCrosstalk :: bool
  nAmp :: nat
  coeffs :: "'f matrix"
  DETECTOR :: "string option"
  DETECTOR_SERIAL :: "string option"

type_synonym 'f outDict = "(string \<times> 'f dataDict) list"

subsection \<open>The tables of readFile\<close>

definition ampIndexMap :: "(char \<times> nat) list" where
  "ampIndexMap = [(CHR ''A'', 0), (CHR ''B'', 1)]"

definition detMap :: "(string \<times> string) list" where
  "detMap =
    [(''ccd01'', ''S29''), (''ccd02'', ''S30''), (''ccd03'', ''S31''), (''ccd04'', ''S25''),
     (''ccd05'', ''S26''), (''ccd06'', ''S27''), (''ccd07'', ''S28''), (''ccd08'', ''S20''),
     (''ccd09'', ''S21''), (''ccd10'', ''S22''), (''ccd11'', ''S23''), (''ccd12'', ''S24''),
     (''ccd13'', ''S14''), (''ccd14'', ''S15''), (''ccd15'', ''S16''), (''ccd16'', ''S17''),
     (''ccd17'', ''S18''), (''ccd18'', ''S19''), (''ccd19'', ''S8''), (''ccd20'', ''S9''),
     (''ccd21'', ''S10''), (''ccd22'', ''S11''), (''ccd23'', ''S12''), (''ccd24'', ''S13''),
     (''ccd25'', ''S1''), (''ccd26'', ''S2''), (''ccd27'', ''S3''), (''ccd28'', ''S4''),
     (''ccd29'', ''S5''), (''ccd30'', ''S6''), (''ccd31'', ''S7''), (''ccd32'', ''N1''),
     (''ccd33'', ''N2''), (''ccd34'', ''N3''), (''ccd35'', ''N4''), (''ccd36'', ''N5''),
     (''ccd37'', ''N6''), (''ccd38'', ''N7''), (''ccd39'', ''N8''), (''ccd40'', ''N9''),
     (''ccd41'', ''N10''), (''ccd42'', ''N11''), (''ccd43'', ''N12''), (''ccd44'', ''N13''),
     (''ccd45'', ''N14''), (''ccd46'', ''N15''), (''ccd47'', ''N16''), (''ccd48'', ''N17''),
     (''ccd49'', ''N18''), (''ccd50'', ''N19''), (''ccd51'', ''N20''), (''ccd52'', ''N21''),
     (''ccd53'', ''N22''), (''ccd54'', ''N23''), (''ccd55'', ''N24''), (''ccd56'', ''N25''),
     (''ccd57'', ''N26''), (''ccd58'', ''N27''), (''ccd59'', ''N28''), (''ccd60'', ''N29''),
     (''ccd61'', ''N30''), (''ccd62'', ''N31'')]"

subsection \<open>One line of the table\<close>

text \<open>
  The \<^verbatim>\<open>if\<close>/\<^verbatim>\<open>elif\<close>/\<^verbatim>\<open>else\<close> that reads the amplifier out of a token: \<^verbatim>\<open>'A' in\<close> is
  tested first.
\<close>

definition ampOf :: "string \<Rightarrow> error + char" where
  "ampOf detAmp =
     (if CHR ''A'' \<in> set detAmp then Inr (CHR ''A'')
      else if CHR ''B'' \<in> set detAmp then Inr (CHR ''B'')
      else Inl (RuntimeError (''Unknown amp: '' @ detAmp)))"

text \<open>The values a line leaves in the local variables once lines 72 to 96 have run.\<close>

record 'f crosstalkRecord =
  victimDet :: string
  sourceDet :: string
  victimAmp :: nat
  sourceAmp :: nat
  coeff :: 'f

text \<open>
  Lines 70 to 96 on the stripped line \<open>li\<close>, in the order of the source: the three
  tokens, the coefficient, the amplifier of the victim, the amplifier of the source, the
  detector of the victim, the detector of the source, the two amplifier indices. The
  first step that raises decides the error.
\<close>

definition parseLine :: "(string \<Rightarrow> 'f option) \<Rightarrow> string \<Rightarrow> error + 'f crosstalkRecord" where
  "parseLine flt li =
     (case split li of
        victimDetAmp # sourceDetAmp # elem2 # _ \<Rightarrow>
          (case flt elem2 of
             None \<Rightarrow> Inl (ValueError elem2)
           | Some c \<Rightarrow>
          (case ampOf victimDetAmp of
             Inl e \<Rightarrow> Inl e
           | Inr vAmp \<Rightarrow>
          (case ampOf sourceDetAmp of
             Inl e \<Rightarrow> Inl e
           | Inr sAmp \<Rightarrow>
          (case map_of detMap (replace_empty vAmp victimDetAmp) of
             None \<Rightarrow> Inl (KeyError (replace_empty vAmp victimDetAmp))
           | Some vDet \<Rightarrow>
          (case map_of detMap (replace_empty sAmp sourceDetAmp) of
             None \<Rightarrow> Inl (KeyError (replace_empty sAmp sourceDetAmp))
           | Some sDet \<Rightarrow>
          (case map_of ampIndexMap vAmp of
             None \<Rightarrow> Inl (KeyError [vAmp])
           | Some vi \<Rightarrow>
          (case map_of ampIndexMap sAmp of
             None \<Rightarrow> Inl (KeyError [sAmp])
           | Some si \<Rightarrow>
               Inr \<lparr>victimDet = vDet, sourceDet = sDet, victimAmp = vi, sourceAmp = si,
                    coeff = c\<rparr>)))))))
      | _ \<Rightarrow> Inl IndexError)"

text \<open>Lines 99 to 108: the dictionary a victim detector gets when it is first met.\<close>

definition newEntry :: "'f::zero dataDict" where
  "newEntry =
     \<lparr>metadata = [(''OBSTYPE'', ''CROSSTALK'')], interChip = [], crosstalkShape = (2, 2),
      hasCrosstalk = True, nAmp = 2, coeffs = zeros22, DETECTOR = None,
      DETECTOR_SERIAL = None\<rparr>"

text \<open>Lines 110 to 119 on the dictionary \<open>e\<close> of the victim.\<close>

definition writeCoeff :: "'f::zero crosstalkRecord \<Rightarrow> 'f dataDict \<Rightarrow> 'f dataDict" where
  "writeCoeff r e =
     (if sourceDet r = victimDet r then
        e\<lparr>metadata := AList.update ''DETECTOR_SERIAL'' ''UNKNOWN''
                        (AList.update ''DETECTOR'' (victimDet r) (metadata e)),
          DETECTOR := Some (victimDet r),
          DETECTOR_SERIAL := Some ''UNKNOWN'',
          coeffs := setitem2 (coeffs e) (victimAmp r) (sourceAmp r) (coeff r)\<rparr>
      else
        e\<lparr>interChip := AList.update (sourceDet r)
             (setitem2 (case map_of (interChip e) (sourceDet r) of
                          None \<Rightarrow> zeros22 | Some m \<Rightarrow> m)
                (victimAmp r) (sourceAmp r) (coeff r))
             (interChip e)\<rparr>)"

text \<open>Lines 98 to 119: the entry of the victim is created if missing, then written.\<close>

definition store :: "'f::zero outDict \<Rightarrow> 'f crosstalkRecord \<Rightarrow> 'f outDict" where
  "store outDict r =
     AList.update (victimDet r)
       (writeCoeff r (case map_of outDict (victimDet r) of
                        None \<Rightarrow> newEntry | Some e \<Rightarrow> e))
       outDict"

text \<open>
  The body of the loop on one line. The result is the exception raised, if any, and
  \<^verbatim>\<open>outDict\<close> as it is when the body ends or raises.
\<close>

definition processLine ::
  "(string \<Rightarrow> 'f option) \<Rightarrow> 'f::zero outDict \<Rightarrow> string \<Rightarrow> error option \<times> 'f outDict" where
  "processLine flt outDict line =
     (let li = strip line in
      if \<not> startswith_hash li then
        (case parseLine flt li of
           Inl e \<Rightarrow> (Some e, outDict)
         | Inr r \<Rightarrow> (None, store outDict r))
      else (None, outDict))"

subsection \<open>The loop and the two functions\<close>

fun readLines ::
  "(string \<Rightarrow> 'f option) \<Rightarrow> 'f::zero outDict \<Rightarrow> string list \<Rightarrow> error option \<times> 'f outDict" where
  "readLines flt outDict [] = (None, outDict)"
| "readLines flt outDict (line # rest) =
     (case processLine flt outDict line of
        (Some e, d) \<Rightarrow> (Some e, d)
      | (None, d) \<Rightarrow> readLines flt d rest)"

text \<open>\<^verbatim>\<open>readFile\<close> on the text of the file: the dictionary, or the exception that ends it.\<close>

definition readFile :: "(string \<Rightarrow> 'f option) \<Rightarrow> string \<Rightarrow> error + 'f::zero outDict" where
  "readFile flt content =
     (case readLines flt [] (file_lines content) of
        (Some e, _) \<Rightarrow> Inl e
      | (None, outDict) \<Rightarrow> Inr outDict)"

text \<open>
  \<^verbatim>\<open>makeDetectorCrosstalk\<close>: the dictionary handed to \<^verbatim>\<open>CrosstalkCalib.fromDict\<close>, and
  the path handed to \<^verbatim>\<open>writeFits\<close> or the \<^verbatim>\<open>KeyError\<close> of \<^verbatim>\<open>dataDict['DETECTOR']\<close>.
  The calls into the framework are taken to return without changing \<^verbatim>\<open>dataDict\<close>.
\<close>

definition makeDetectorCrosstalk ::
  "string \<Rightarrow> 'f dataDict \<Rightarrow> 'f dataDict \<times> (error + string)" where
  "makeDetectorCrosstalk outDir dataDict =
     (let dataDict' = dataDict\<lparr>coeffs := transpose (coeffs dataDict)\<rparr> in
      (dataDict',
       (case DETECTOR dataDict' of
          None \<Rightarrow> Inl (KeyError ''DETECTOR'')
        | Some detName \<Rightarrow> Inr (outDir @ ''/'' @ detName @ ''.fits''))))"

subsection \<open>A float parser to run the model with\<close>

text \<open>
  An instance of the parameter \<open>flt\<close> for concrete files: a literal of digits, a point
  and digits is read as the rational it denotes; anything else is refused.
\<close>

definition digit :: "char \<Rightarrow> nat option" where
  "digit c = map_of [(CHR ''0'', 0), (CHR ''1'', 1), (CHR ''2'', 2), (CHR ''3'', 3),
     (CHR ''4'', 4), (CHR ''5'', 5), (CHR ''6'', 6), (CHR ''7'', 7), (CHR ''8'', 8),
     (CHR ''9'', 9)] c"

fun digits :: "nat \<Rightarrow> string \<Rightarrow> nat option" where
  "digits acc [] = Some acc"
| "digits acc (c # cs) =
     (case digit c of None \<Rightarrow> None | Some d \<Rightarrow> digits (10 * acc + d) cs)"

definition decimal :: "string \<Rightarrow> rat option" where
  "decimal s =
     (let ip = takeWhile (\<lambda>c. c \<noteq> CHR ''.'') s;
          fp = drop 1 (dropWhile (\<lambda>c. c \<noteq> CHR ''.'') s)
      in if ip = [] \<or> fp = [] then None
         else (case (digits 0 ip, digits 0 fp) of
                 (Some a, Some b) \<Rightarrow> Some (of_nat a + of_nat b / 10 ^ length fp)
               | _ \<Rightarrow> None))"

subsection \<open>Observations on the result\<close>

text \<open>A line that the loop skips: its first character after stripping is \<open>#\<close>.\<close>

definition isComment :: "string \<Rightarrow> bool" where
  "isComment line = startswith_hash (strip line)"

text \<open>A blank line: empty, or whitespace only.\<close>

definition blank :: "string \<Rightarrow> bool" where
  "blank line = list_all isspace line"

text \<open>The record a line stores, if it stores one.\<close>

definition recordOf :: "(string \<Rightarrow> 'f option) \<Rightarrow> string \<Rightarrow> 'f crosstalkRecord option" where
  "recordOf flt line =
     (if startswith_hash (strip line) then None
      else (case parseLine flt (strip line) of Inl _ \<Rightarrow> None | Inr r \<Rightarrow> Some r))"

text \<open>A line that the loop body runs on without raising.\<close>

definition lineOk :: "(string \<Rightarrow> 'f option) \<Rightarrow> string \<Rightarrow> bool" where
  "lineOk flt line \<longleftrightarrow> isComment line \<or> recordOf flt line \<noteq> None"

text \<open>The record \<open>r\<close> is for the cell \<open>[i][j]\<close> of what victim \<open>v\<close> gets from source \<open>s\<close>.\<close>

definition targets :: "'f crosstalkRecord \<Rightarrow> string \<Rightarrow> string \<Rightarrow> nat \<Rightarrow> nat \<Rightarrow> bool" where
  "targets r v s i j \<longleftrightarrow>
     victimDet r = v \<and> sourceDet r = s \<and> victimAmp r = i \<and> sourceAmp r = j"

text \<open>Some line of \<open>ls\<close> has a record for that cell.\<close>

definition observed ::
  "(string \<Rightarrow> 'f option) \<Rightarrow> string list \<Rightarrow> string \<Rightarrow> string \<Rightarrow> nat \<Rightarrow> nat \<Rightarrow> bool" where
  "observed flt ls v s i j =
     list_ex (\<lambda>l. case recordOf flt l of None \<Rightarrow> False | Some r \<Rightarrow> targets r v s i j) ls"

text \<open>Some line of \<open>ls\<close> has a record with victim \<open>v\<close>; with victim and source \<open>v\<close>.\<close>

definition victimSeen :: "(string \<Rightarrow> 'f option) \<Rightarrow> string list \<Rightarrow> string \<Rightarrow> bool" where
  "victimSeen flt ls v =
     list_ex (\<lambda>l. case recordOf flt l of None \<Rightarrow> False | Some r \<Rightarrow> victimDet r = v) ls"

definition selfSeen :: "(string \<Rightarrow> 'f option) \<Rightarrow> string list \<Rightarrow> string \<Rightarrow> bool" where
  "selfSeen flt ls v =
     list_ex (\<lambda>l. case recordOf flt l of
                     None \<Rightarrow> False | Some r \<Rightarrow> victimDet r = v \<and> sourceDet r = v) ls"

text \<open>The coefficient of the last line of \<open>ls\<close> with a record for the cell.\<close>

fun lastWrite ::
  "(string \<Rightarrow> 'f option) \<Rightarrow> string list \<Rightarrow> string \<Rightarrow> string \<Rightarrow> nat \<Rightarrow> nat \<Rightarrow> 'f option" where
  "lastWrite flt [] v s i j = None"
| "lastWrite flt (l # ls) v s i j =
     (case lastWrite flt ls v s i j of
        Some c \<Rightarrow> Some c
      | None \<Rightarrow>
          (case recordOf flt l of
             None \<Rightarrow> None
           | Some r \<Rightarrow> if targets r v s i j then Some (coeff r) else None))"

text \<open>
  The matrix that holds what victim \<open>v\<close> gets from source \<open>s\<close>: \<^verbatim>\<open>outDict[v]['coeffs']\<close>
  when \<open>s\<close> is \<open>v\<close>, \<^verbatim>\<open>outDict[v]['interChip'][s]\<close> otherwise.
\<close>

definition matrixAt :: "'f outDict \<Rightarrow> string \<Rightarrow> string \<Rightarrow> 'f matrix option" where
  "matrixAt d v s =
     (case map_of d v of
        None \<Rightarrow> None
      | Some e \<Rightarrow> if s = v then Some (coeffs e) else map_of (interChip e) s)"

text \<open>Its cell \<open>[i][j]\<close>, a matrix that is not there counting as zero.\<close>

definition entryCell :: "'f::zero dataDict \<Rightarrow> string \<Rightarrow> string \<Rightarrow> nat \<Rightarrow> nat \<Rightarrow> 'f" where
  "entryCell e v s i j =
     (if s = v then coeffs e ! i ! j
      else (case map_of (interChip e) s of None \<Rightarrow> 0 | Some m \<Rightarrow> m ! i ! j))"

definition cell :: "'f::zero outDict \<Rightarrow> string \<Rightarrow> string \<Rightarrow> nat \<Rightarrow> nat \<Rightarrow> 'f" where
  "cell d v s i j = (case map_of d v of None \<Rightarrow> 0 | Some e \<Rightarrow> entryCell e v s i j)"

subsection \<open>Invariants of the loop\<close>

text \<open>Every array has two rows of two cells.\<close>

definition shape22 :: "'f matrix \<Rightarrow> bool" where
  "shape22 m \<longleftrightarrow> length m = 2 \<and> list_all (\<lambda>row. length row = 2) m"

definition shaped :: "'f outDict \<Rightarrow> bool" where
  "shaped d \<longleftrightarrow>
     list_all (\<lambda>(k, e). shape22 (coeffs e) \<and> list_all (\<lambda>(s, m). shape22 m) (interChip e)) d"

text \<open>No detector is a key of its own \<^verbatim>\<open>interChip\<close>.\<close>

definition interForeign :: "'f outDict \<Rightarrow> bool" where
  "interForeign d \<longleftrightarrow> list_all (\<lambda>(k, e). map_of (interChip e) k = None) d"

subsection \<open>What the specification says, as definitions\<close>

text \<open>
  The amplifier as the specification describes it: the token is scanned from the left and
  the first \<open>A\<close> or \<open>B\<close> met decides.
\<close>

fun firstAB :: "string \<Rightarrow> char option" where
  "firstAB [] = None"
| "firstAB (c # cs) = (if c = CHR ''A'' \<or> c = CHR ''B'' then Some c else firstAB cs)"

definition ampOf_spec :: "string \<Rightarrow> error + char" where
  "ampOf_spec t =
     (case firstAB t of
        None \<Rightarrow> Inl (RuntimeError (''Unknown amp: '' @ t))
      | Some a \<Rightarrow> Inr a)"

text \<open>The lines of a file without the blank ones; without the comments.\<close>

definition dropBlank :: "string list \<Rightarrow> string list" where
  "dropBlank ls = filter (\<lambda>l. \<not> blank l) ls"

definition dropComments :: "string list \<Rightarrow> string list" where
  "dropComments ls = filter (\<lambda>l. \<not> isComment l) ls"

text \<open>Every line that is not blank is a comment or stores a record.\<close>

definition okApartFromBlank :: "(string \<Rightarrow> 'f option) \<Rightarrow> string list \<Rightarrow> bool" where
  "okApartFromBlank flt ls = list_all (\<lambda>l. blank l \<or> lineOk flt l) ls"

subsection \<open>The metadata of an entry\<close>

text \<open>The dictionary of victim \<open>v\<close> once lines 98 to 108 have run.\<close>

definition victimEntry :: "'f::zero outDict \<Rightarrow> string \<Rightarrow> 'f dataDict" where
  "victimEntry d v = (case map_of d v of None \<Rightarrow> newEntry | Some e \<Rightarrow> e)"

text \<open>The metadata as line 101 leaves it, and as lines 111 to 114 leave it.\<close>

definition freshMeta :: "'f dataDict \<Rightarrow> bool" where
  "freshMeta e \<longleftrightarrow>
     metadata e = [(''OBSTYPE'', ''CROSSTALK'')] \<and> DETECTOR e = None \<and> DETECTOR_SERIAL e = None"

definition fullMeta :: "'f dataDict \<Rightarrow> string \<Rightarrow> bool" where
  "fullMeta e v \<longleftrightarrow>
     metadata e = [(''OBSTYPE'', ''CROSSTALK''), (''DETECTOR'', v),
                   (''DETECTOR_SERIAL'', ''UNKNOWN'')] \<and>
     DETECTOR e = Some v \<and> DETECTOR_SERIAL e = Some ''UNKNOWN''"

definition metaInv ::
  "(string \<Rightarrow> 'f option) \<Rightarrow> string list \<Rightarrow> 'f outDict \<Rightarrow> string \<Rightarrow> bool" where
  "metaInv flt ls d v =
     (case map_of d v of
        None \<Rightarrow> \<not> victimSeen flt ls v
      | Some e \<Rightarrow>
          victimSeen flt ls v \<and> hasCrosstalk e \<and>
          (if selfSeen flt ls v then fullMeta e v else freshMeta e))"

subsection \<open>Example tables\<close>

text \<open>The three lines of the end-to-end example of the specification, and its result.\<close>

definition example3 :: string where
  "example3 =
     ''ccd01A ccd01B 0.0012\<newline>ccd01B ccd01A 0.0009\<newline>ccd01A ccd02B 0.0003\<newline>''"

definition example3_S29 :: "rat dataDict" where
  "example3_S29 =
     \<lparr>metadata = [(''OBSTYPE'', ''CROSSTALK''), (''DETECTOR'', ''S29''),
                  (''DETECTOR_SERIAL'', ''UNKNOWN'')],
      interChip = [(''S30'', [[0, 3 / 10000], [0, 0]])],
      crosstalkShape = (2, 2), hasCrosstalk = True, nAmp = 2,
      coeffs = [[0, 3 / 2500], [9 / 10000, 0]],
      DETECTOR = Some ''S29'', DETECTOR_SERIAL = Some ''UNKNOWN''\<rparr>"

text \<open>Its first and third line, the dictionary after the first, the record of the third.\<close>

definition example_line1 :: string where
  "example_line1 = ''ccd01A ccd01B 0.0012\<newline>''"

definition example_line3 :: string where
  "example_line3 = ''ccd01A ccd02B 0.0003\<newline>''"

definition example_after1 :: "rat outDict" where
  "example_after1 =
     [(''S29'',
       \<lparr>metadata = [(''OBSTYPE'', ''CROSSTALK''), (''DETECTOR'', ''S29''),
                    (''DETECTOR_SERIAL'', ''UNKNOWN'')],
        interChip = [],
        crosstalkShape = (2, 2), hasCrosstalk = True, nAmp = 2,
        coeffs = [[0, 3 / 2500], [0, 0]],
        DETECTOR = Some ''S29'', DETECTOR_SERIAL = Some ''UNKNOWN''\<rparr>)]"

definition example_record3 :: "rat crosstalkRecord" where
  "example_record3 =
     \<lparr>victimDet = ''S29'', sourceDet = ''S30'', victimAmp = 0, sourceAmp = 1,
      coeff = 3 / 10000\<rparr>"

text \<open>A table with a blank line between two records.\<close>

definition example_blank :: string where
  "example_blank = ''ccd01A ccd01B 0.0012\<newline>\<newline>ccd01B ccd01A 0.0009\<newline>''"

text \<open>A table whose only record is between two detectors, and its result.\<close>

definition example_inter :: string where
  "example_inter = ''ccd01A ccd02B 0.0003''"

definition example_inter_S29 :: "rat dataDict" where
  "example_inter_S29 =
     \<lparr>metadata = [(''OBSTYPE'', ''CROSSTALK'')],
      interChip = [(''S30'', [[0, 3 / 10000], [0, 0]])],
      crosstalkShape = (2, 2), hasCrosstalk = True, nAmp = 2,
      coeffs = [[0, 0], [0, 0]],
      DETECTOR = None, DETECTOR_SERIAL = None\<rparr>"

text \<open>A table with two records for one cell, and the two records.\<close>

definition example_dup1 :: string where
  "example_dup1 = ''ccd01A ccd01B 0.0012\<newline>''"

definition example_dup2 :: string where
  "example_dup2 = ''ccd01A ccd01B 0.0034\<newline>''"

definition example_dup_record1 :: "rat crosstalkRecord" where
  "example_dup_record1 =
     \<lparr>victimDet = ''S29'', sourceDet = ''S29'', victimAmp = 0, sourceAmp = 1,
      coeff = 3 / 2500\<rparr>"

definition example_dup_record2 :: "rat crosstalkRecord" where
  "example_dup_record2 =
     \<lparr>victimDet = ''S29'', sourceDet = ''S29'', victimAmp = 0, sourceAmp = 1,
      coeff = 17 / 5000\<rparr>"

section \<open>Lemmas\<close>

subsection \<open>The shape of the arrays\<close>


lemma readLines_append:
  "readLines flt d (xs @ ys) =
     (case readLines flt d xs of
        (Some e, d') \<Rightarrow> (Some e, d')
      | (None, d') \<Rightarrow> readLines flt d' ys)"
  by (induction xs arbitrary: d) (auto split: prod.splits option.splits)

lemma set_update_subset: "set (AList.update k v al) \<subseteq> insert (k, v) (set al)"
  by (induction al) auto

lemma shape22_zeros22: "shape22 zeros22"
  by (simp add: shape22_def zeros22_def)

lemma shape22_setitem2: "shape22 m \<Longrightarrow> shape22 (setitem2 m i j v)"
proof (cases "i < length m")
  case True
  then show "shape22 m \<Longrightarrow> shape22 (setitem2 m i j v)"
    unfolding shape22_def setitem2_def list_all_length
    by (auto simp: nth_list_update)
next
  case False
  then have "setitem2 m i j v = m"
    by (simp add: setitem2_def list_update_beyond)
  then show "shape22 m \<Longrightarrow> shape22 (setitem2 m i j v)"
    by simp
qed

lemma setitem2_nth:
  assumes "shape22 m" "i < 2" "j < 2" "i' < 2" "j' < 2"
  shows "setitem2 m i j v ! i' ! j' = (if i' = i \<and> j' = j then v else m ! i' ! j')"
proof -
  from assms(1) have len: "length m = 2" and rows: "\<And>k. k < 2 \<Longrightarrow> length (m ! k) = 2"
    by (auto simp: shape22_def list_all_length)
  show ?thesis
    using assms(2-) len rows by (simp add: setitem2_def nth_list_update)
qed

lemma shaped_lookup:
  assumes "shaped d" "map_of d k = Some e"
  shows "shape22 (coeffs e)" and "map_of (interChip e) s = Some m \<Longrightarrow> shape22 m"
proof -
  from assms have *: "shape22 (coeffs e) \<and> list_all (\<lambda>(s, m). shape22 m) (interChip e)"
    by (auto simp: shaped_def list_all_iff dest!: map_of_SomeD)
  then show "shape22 (coeffs e)" by simp
  assume "map_of (interChip e) s = Some m"
  with * show "shape22 m" by (auto simp: list_all_iff dest!: map_of_SomeD)
qed

lemma shaped_newEntry:
  "shape22 (coeffs (newEntry :: 'f::zero dataDict))"
  "interChip (newEntry :: 'f::zero dataDict) = []"
  by (simp_all add: newEntry_def shape22_zeros22)

lemma entry_shaped_writeCoeff:
  assumes "shape22 (coeffs e)" "list_all (\<lambda>(s, m). shape22 m) (interChip e)"
  shows "shape22 (coeffs (writeCoeff r e)) \<and>
         list_all (\<lambda>(s, m). shape22 m) (interChip (writeCoeff r e))"
proof (cases "sourceDet r = victimDet r")
  case True
  with assms show ?thesis by (simp add: writeCoeff_def shape22_setitem2)
next
  case False
  let ?m = "case map_of (interChip e) (sourceDet r) of None \<Rightarrow> zeros22 | Some m \<Rightarrow> m"
  have "shape22 ?m"
    using assms(2) by (auto simp: list_all_iff shape22_zeros22 split: option.splits dest!: map_of_SomeD)
  then have "shape22 (setitem2 ?m (victimAmp r) (sourceAmp r) (coeff r))"
    by (rule shape22_setitem2)
  with assms False show ?thesis
    using set_update_subset [of "sourceDet r" _ "interChip e"]
    by (auto simp: writeCoeff_def list_all_iff)
qed

lemma shaped_store:
  assumes "shaped d" shows "shaped (store d r)"
proof -
  let ?e = "case map_of d (victimDet r) of None \<Rightarrow> newEntry | Some e \<Rightarrow> e"
  have "shape22 (coeffs ?e) \<and> list_all (\<lambda>(s, m). shape22 m) (interChip ?e)"
    using assms
    by (auto simp: shaped_def list_all_iff shaped_newEntry split: option.splits dest!: map_of_SomeD)
  then have "shape22 (coeffs (writeCoeff r ?e)) \<and>
         list_all (\<lambda>(s, m). shape22 m) (interChip (writeCoeff r ?e))"
    using entry_shaped_writeCoeff by blast
  then have new: "(\<lambda>(k, e). shape22 (coeffs e) \<and> list_all (\<lambda>(s, m). shape22 m) (interChip e))
     (victimDet r, writeCoeff r ?e)"
    by simp
  show ?thesis
    unfolding store_def shaped_def list_all_iff
  proof
    fix x assume "x \<in> set (AList.update (victimDet r) (writeCoeff r ?e) d)"
    then have "x = (victimDet r, writeCoeff r ?e) \<or> x \<in> set d"
      using set_update_subset [of "victimDet r" "writeCoeff r ?e" d] by auto
    then show "case x of (k, e) \<Rightarrow> shape22 (coeffs e) \<and> (\<forall>x\<in>set (interChip e). case x of (s, m) \<Rightarrow> shape22 m)"
      using new assms unfolding shaped_def list_all_iff by auto
  qed
qed

lemma processLine_cases:
  "processLine flt d line =
     (if startswith_hash (strip line) then (None, d)
      else (case parseLine flt (strip line) of
              Inl e \<Rightarrow> (Some e, d) | Inr r \<Rightarrow> (None, store d r)))"
  by (simp add: processLine_def Let_def)

lemma shaped_processLine:
  "shaped d \<Longrightarrow> shaped (snd (processLine flt d line))"
  by (auto simp: processLine_cases shaped_store split: sum.splits)

lemma shaped_readLines:
  "shaped d \<Longrightarrow> shaped (snd (readLines flt d ls))"
proof (induction ls arbitrary: d)
  case Nil
  then show ?case by simp
next
  case (Cons l ls)
  from Cons.prems have s: "shaped (snd (processLine flt d l))"
    by (rule shaped_processLine)
  show ?case
  proof (cases "processLine flt d l")
    case (Pair err d')
    with s Cons.IH [of d'] show ?thesis
      by (cases err) auto
  qed
qed

lemma parseLine_amp_bound:
  assumes "parseLine flt li = Inr r"
  shows "victimAmp r < 2 \<and> sourceAmp r < 2"
  using assms
  by (auto simp: parseLine_def ampIndexMap_def split: list.splits option.splits sum.splits if_splits)


subsection \<open>The cell written by a record\<close>


lemma map_of_store:
  "map_of (store d r) k =
     (if k = victimDet r
      then Some (writeCoeff r (case map_of d (victimDet r) of None \<Rightarrow> newEntry | Some e \<Rightarrow> e))
      else map_of d k)"
  by (simp add: store_def update_conv')

lemma cell_entryCell:
  "cell d v s i j = (case map_of d v of None \<Rightarrow> 0 | Some e \<Rightarrow> entryCell e v s i j)"
  by (simp add: cell_def entryCell_def split: option.splits)

lemma zeros22_nth: "i < 2 \<Longrightarrow> j < 2 \<Longrightarrow> (zeros22 :: 'f::zero matrix) ! i ! j = 0"
  by (auto simp: zeros22_def less_2_cases_iff)

lemma entryCell_newEntry:
  "i < 2 \<Longrightarrow> j < 2 \<Longrightarrow> entryCell (newEntry :: 'f::zero dataDict) v s i j = 0"
  by (simp add: entryCell_def newEntry_def zeros22_nth)

lemma entryCell_writeCoeff:
  fixes e :: "'f::zero dataDict"
  assumes c: "shape22 (coeffs e)"
    and m: "\<And>m. map_of (interChip e) (sourceDet r) = Some m \<Longrightarrow> shape22 m"
    and r: "victimAmp r < 2" "sourceAmp r < 2" and ij: "i < 2" "j < 2"
  shows "entryCell (writeCoeff r e) (victimDet r) s i j =
     (if s = sourceDet r \<and> i = victimAmp r \<and> j = sourceAmp r then coeff r
      else entryCell e (victimDet r) s i j)"
proof (cases "sourceDet r = victimDet r")
  case True
  then show ?thesis
    using setitem2_nth [OF c r ij]
    by (auto simp: entryCell_def writeCoeff_def)
next
  case False
  show ?thesis
  proof (cases "map_of (interChip e) (sourceDet r)")
    case None
    have z: "shape22 (zeros22 :: 'f matrix)"
      by (rule shape22_zeros22)
    have z0: "(zeros22 :: 'f matrix) ! i ! j = 0"
      using ij by (rule zeros22_nth)
    from None False show ?thesis
      using setitem2_nth [OF z r ij] z0
      by (auto simp: entryCell_def writeCoeff_def update_conv')
  next
    case (Some m0)
    with False show ?thesis
      using setitem2_nth [OF m [OF Some] r ij]
      by (auto simp: entryCell_def writeCoeff_def update_conv')
  qed
qed

lemma cell_store:
  fixes d :: "'f::zero outDict"
  assumes sh: "shaped d" and r: "victimAmp r < 2" "sourceAmp r < 2" and ij: "i < 2" "j < 2"
  shows "cell (store d r) v s i j = (if targets r v s i j then coeff r else cell d v s i j)"
proof (cases "v = victimDet r")
  case False
  then show ?thesis by (auto simp: cell_def map_of_store targets_def)
next
  case v: True
  show ?thesis
  proof (cases "map_of d (victimDet r)")
    case None
    have "entryCell (writeCoeff r newEntry) (victimDet r) s i j =
       (if s = sourceDet r \<and> i = victimAmp r \<and> j = sourceAmp r then coeff r
        else entryCell (newEntry :: 'f dataDict) (victimDet r) s i j)"
      by (rule entryCell_writeCoeff [OF _ _ r ij]) (simp_all add: shaped_newEntry)
    with v None show ?thesis
      by (auto simp: cell_entryCell map_of_store targets_def entryCell_newEntry [OF ij])
  next
    case (Some e)
    have "entryCell (writeCoeff r e) (victimDet r) s i j =
       (if s = sourceDet r \<and> i = victimAmp r \<and> j = sourceAmp r then coeff r
        else entryCell e (victimDet r) s i j)"
      by (rule entryCell_writeCoeff [OF _ _ r ij]) (auto intro: shaped_lookup(1) [OF sh Some] shaped_lookup(2) [OF sh Some])
    with v Some show ?thesis
      by (auto simp: cell_entryCell map_of_store targets_def)
  qed
qed

lemma processLine_recordOf:
  "processLine flt d line = (None, d') \<longleftrightarrow>
     (case recordOf flt line of None \<Rightarrow> startswith_hash (strip line) \<and> d' = d
      | Some r \<Rightarrow> d' = store d r)"
  by (auto simp: processLine_cases recordOf_def split: sum.splits)

lemma recordOf_amp_bound:
  "recordOf flt line = Some r \<Longrightarrow> victimAmp r < 2 \<and> sourceAmp r < 2"
  by (auto simp: recordOf_def split: if_splits sum.splits dest: parseLine_amp_bound)

lemma cell_readLines:
  assumes "readLines flt d0 ls = (None, d)" "shaped d0" "i < 2" "j < 2"
  shows "cell d v s i j = (case lastWrite flt ls v s i j of None \<Rightarrow> cell d0 v s i j | Some c \<Rightarrow> c)"
  using assms
proof (induction ls arbitrary: d0)
  case Nil
  then show ?case by simp
next
  case (Cons l ls)
  from Cons.prems(1) obtain d1 where
    step: "processLine flt d0 l = (None, d1)" and rest: "readLines flt d1 ls = (None, d)"
    by (auto split: prod.splits option.splits)
  have sh1: "shaped d1"
    using shaped_processLine [OF Cons.prems(2), of flt l] step by simp
  have IH: "cell d v s i j = (case lastWrite flt ls v s i j of None \<Rightarrow> cell d1 v s i j | Some c \<Rightarrow> c)"
    using Cons.IH [OF rest sh1 Cons.prems(3,4)] .
  have d1: "cell d1 v s i j =
      (case recordOf flt l of None \<Rightarrow> cell d0 v s i j
       | Some r \<Rightarrow> if targets r v s i j then coeff r else cell d0 v s i j)"
  proof (cases "recordOf flt l")
    case None
    with step show ?thesis by (simp add: processLine_recordOf)
  next
    case (Some r)
    with step have "d1 = store d0 r" by (simp add: processLine_recordOf)
    with Some show ?thesis
      using cell_store [OF Cons.prems(2) _ _ Cons.prems(3,4), of r v s] recordOf_amp_bound [OF Some]
      by simp
  qed
  show ?case
    by (simp add: IH d1 split: option.splits)
qed


subsection \<open>States reached from the empty dictionary\<close>

lemma readFile_Inr: "readFile flt content = Inr d \<longleftrightarrow> readLines flt [] (file_lines content) = (None, d)"
  by (auto simp: readFile_def split: prod.splits option.splits)

lemma readFile_Inl: "readFile flt content = Inl e \<longleftrightarrow> (\<exists>d. readLines flt [] (file_lines content) = (Some e, d))"
  by (auto simp: readFile_def split: prod.splits option.splits)

lemma shaped_Nil: "shaped []"
  by (simp add: shaped_def)

lemma shaped_reached: "readLines flt [] ls = (e, d) \<Longrightarrow> shaped d"
  using shaped_readLines [OF shaped_Nil, of flt ls] by simp

lemma interForeign_store:
  assumes "interForeign d" shows "interForeign (store d r)"
proof -
  let ?e = "case map_of d (victimDet r) of None \<Rightarrow> newEntry | Some e \<Rightarrow> e"
  have old: "map_of (interChip ?e) (victimDet r) = None"
    using assms
    by (auto simp: interForeign_def list_all_iff newEntry_def split: option.splits dest!: map_of_SomeD)
  have new: "map_of (interChip (writeCoeff r ?e)) (victimDet r) = None"
    using old by (simp add: writeCoeff_def update_conv')
  show ?thesis
    unfolding store_def interForeign_def list_all_iff
  proof
    fix x assume "x \<in> set (AList.update (victimDet r) (writeCoeff r ?e) d)"
    then have "x = (victimDet r, writeCoeff r ?e) \<or> x \<in> set d"
      using set_update_subset [of "victimDet r" "writeCoeff r ?e" d] by auto
    then show "case x of (k, e) \<Rightarrow> map_of (interChip e) k = None"
      using new assms unfolding interForeign_def list_all_iff by auto
  qed
qed

lemma interForeign_readLines:
  "interForeign d \<Longrightarrow> interForeign (snd (readLines flt d ls))"
proof (induction ls arbitrary: d)
  case Nil
  then show ?case by simp
next
  case (Cons l ls)
  have "interForeign (snd (processLine flt d l))"
    using Cons.prems by (auto simp: processLine_cases interForeign_store split: sum.splits)
  then show ?case
    using Cons.IH [of "snd (processLine flt d l)"]
    by (cases "processLine flt d l") (auto split: option.splits)
qed

lemma interForeign_reached:
  assumes "readLines flt [] ls = (e, d)" "map_of d v = Some x"
  shows "map_of (interChip x) v = None"
proof -
  have "interForeign d"
    using interForeign_readLines [of "[]" flt ls] assms(1) by (simp add: interForeign_def)
  with assms(2) show ?thesis
    by (auto simp: interForeign_def list_all_iff dest!: map_of_SomeD)
qed

lemma lastWrite_None: "lastWrite flt ls v s i j = None \<longleftrightarrow> \<not> observed flt ls v s i j"
  by (induction ls) (auto simp: observed_def split: option.splits)

lemma cell_Nil: "cell [] v s i j = 0"
  by (simp add: cell_def)

lemma cell_unobserved:
  assumes "readLines flt [] ls = (None, d)" "\<not> observed flt ls v s i j" "i < 2" "j < 2"
  shows "cell d v s i j = 0"
  using cell_readLines [OF assms(1) shaped_Nil assms(3,4), of v s] assms(2)
  by (simp add: lastWrite_None [symmetric] cell_Nil)

lemma processLine_strip: "strip l = strip l' \<Longrightarrow> processLine flt d l = processLine flt d l'"
  by (simp add: processLine_def)

lemma readLines_strip:
  "map strip ls = map strip ls' \<Longrightarrow> readLines flt d ls = readLines flt d ls'"
proof (induction ls arbitrary: ls' d)
  case Nil
  then show ?case by simp
next
  case (Cons l ls)
  then obtain l' ls'' where ls': "ls' = l' # ls''" "strip l = strip l'" "map strip ls = map strip ls''"
    by (cases ls') auto
  have "processLine flt d l = processLine flt d l'"
    using ls'(2) by (rule processLine_strip)
  with Cons.IH [OF ls'(3)] ls'(1) show ?case
    by (simp split: prod.splits option.splits)
qed

subsection \<open>Running the model on a concrete table\<close>

lemmas run_defs = processLine_def parseLine_def split_def strip_def isspace_def ampOf_def
  replace_empty_def detMap_def ampIndexMap_def startswith_hash_def store_def writeCoeff_def
  newEntry_def zeros22_def setitem2_def

lemma decimal_example3:
  "decimal ''0.0012'' = Some (3 / 2500)" "decimal ''0.0009'' = Some (9 / 10000)"
  "decimal ''0.0003'' = Some (3 / 10000)"
  by (simp_all add: decimal_def digit_def)

lemma readFile_example3: "readFile decimal example3 = Inr [(''S29'', example3_S29)]"
  by (simp add: example3_def example3_S29_def readFile_def run_defs decimal_def digit_def)

subsection \<open>The entry of the victim\<close>

lemma shape_victimEntry:
  assumes "shaped d"
  shows "shape22 (coeffs (victimEntry d v))"
    and "map_of (interChip (victimEntry d v)) s = Some m \<Longrightarrow> shape22 m"
proof -
  show "shape22 (coeffs (victimEntry d v))"
    using assms
    by (auto simp: victimEntry_def shaped_newEntry split: option.splits intro: shaped_lookup(1))
  assume "map_of (interChip (victimEntry d v)) s = Some m"
  then show "shape22 m"
    using assms
    by (auto simp: victimEntry_def shaped_newEntry split: option.splits intro: shaped_lookup(2))
qed

lemma shape22_expand:
  assumes "shape22 m"
  shows "m = [[m ! 0 ! 0, m ! 0 ! 1], [m ! 1 ! 0, m ! 1 ! 1]]"
proof -
  from assms have l: "length m = 2" "length (m ! 0) = 2" "length (m ! 1) = 2"
    by (auto simp: shape22_def list_all_length)
  have row: "xs = [xs ! 0, xs ! 1]" if "length xs = 2" for xs :: "'b list"
    using that by (cases xs; cases "tl xs") auto
  show ?thesis
    using row [of m] row [of "m ! 0"] row [of "m ! 1"] l by (metis One_nat_def)
qed

subsection \<open>Lines that raise\<close>

lemma readLines_snoc_raise:
  assumes "readLines flt d0 pre = (None, d)" "processLine flt d line = (Some err, d')"
  shows "readLines flt d0 (pre @ line # post) = (Some err, d')"
  using assms by (simp add: readLines_append)

lemma processLine_raise:
  "processLine flt d line = (Some err, d') \<longleftrightarrow>
     \<not> startswith_hash (strip line) \<and> parseLine flt (strip line) = Inl err \<and> d' = d"
  by (auto simp: processLine_cases split: sum.splits)

lemma ampOf_Inl:
  "ampOf t = Inl err \<longleftrightarrow>
     CHR ''A'' \<notin> set t \<and> CHR ''B'' \<notin> set t \<and> err = RuntimeError (''Unknown amp: '' @ t)"
  by (auto simp: ampOf_def)

lemma ampIndexMap_amp: "ampOf t = Inr a \<Longrightarrow> map_of ampIndexMap a \<noteq> None"
  by (auto simp: ampOf_def ampIndexMap_def split: if_splits)

lemma parseLine_errors:
  assumes "parseLine flt li = Inl err"
  shows "err = IndexError \<or>
         (\<exists>t. err = ValueError t \<and> flt t = None) \<or>
         (\<exists>t. err = RuntimeError (''Unknown amp: '' @ t) \<and>
              CHR ''A'' \<notin> set t \<and> CHR ''B'' \<notin> set t) \<or>
         (\<exists>k. err = KeyError k \<and> map_of detMap k = None)"
proof (cases "split li")
  case Nil
  with assms show ?thesis by (simp add: parseLine_def)
next
  case (Cons t0 ts0)
  show ?thesis
  proof (cases ts0)
    case Nil
    with Cons assms show ?thesis by (simp add: parseLine_def)
  next
    case ts0: (Cons t1 ts1)
    show ?thesis
    proof (cases ts1)
      case Nil
      with Cons ts0 assms show ?thesis by (simp add: parseLine_def)
    next
      case ts1: (Cons t2 ts2)
      from assms show ?thesis
        unfolding parseLine_def Cons ts0 ts1
        by (auto split: option.splits sum.splits simp: ampOf_Inl dest: ampIndexMap_amp)
    qed
  qed
qed

subsection \<open>The amplifier of a token\<close>

lemma firstAB_None: "firstAB t = None \<longleftrightarrow> CHR ''A'' \<notin> set t \<and> CHR ''B'' \<notin> set t"
  by (induction t) auto

lemma firstAB_only_B: "CHR ''A'' \<notin> set t \<Longrightarrow> CHR ''B'' \<in> set t \<Longrightarrow> firstAB t = Some (CHR ''B'')"
  by (induction t) auto

lemma ampOf_without_A: "CHR ''A'' \<notin> set t \<Longrightarrow> ampOf t = ampOf_spec t"
proof (cases "CHR ''B'' \<in> set t")
  case True
  assume "CHR ''A'' \<notin> set t"
  with True show ?thesis
    by (simp add: ampOf_def ampOf_spec_def firstAB_only_B)
next
  case False
  assume "CHR ''A'' \<notin> set t"
  with False have "firstAB t = None" by (simp add: firstAB_None)
  with False \<open>CHR ''A'' \<notin> set t\<close> show ?thesis
    by (simp add: ampOf_def ampOf_spec_def)
qed

subsection \<open>Blank lines and comments\<close>

lemma strip_blank: "blank line \<Longrightarrow> strip line = []"
proof -
  assume "blank line"
  then have "dropWhile isspace line = []"
    by (simp add: blank_def list_all_iff)
  then show ?thesis
    unfolding strip_def by (simp only: rev.simps dropWhile.simps)
qed

lemma processLine_blank: "blank line \<Longrightarrow> processLine flt d line = (Some IndexError, d)"
  by (simp add: processLine_raise strip_blank startswith_hash_def parseLine_def split_def)

lemma readLines_dropComments: "readLines flt d (dropComments ls) = readLines flt d ls"
proof (induction ls arbitrary: d)
  case Nil
  show ?case by (simp add: dropComments_def)
next
  case (Cons l ls)
  show ?case
  proof (cases "isComment l")
    case True
    then have "processLine flt d l = (None, d)"
      by (simp add: processLine_cases isComment_def)
    with True Cons.IH [of d] show ?thesis
      by (simp add: dropComments_def)
  next
    case False
    with Cons.IH show ?thesis
      by (simp add: dropComments_def split: prod.splits option.splits)
  qed
qed

subsection \<open>The metadata invariant\<close>

lemma readLines_snoc:
  "readLines flt d0 (ls @ [l]) = (None, d) \<longleftrightarrow>
     (\<exists>d1. readLines flt d0 ls = (None, d1) \<and> processLine flt d1 l = (None, d))"
  by (auto simp: readLines_append split: prod.splits option.splits)

lemma writeCoeff_meta:
  "hasCrosstalk (writeCoeff r e) = hasCrosstalk e"
  "sourceDet r \<noteq> victimDet r \<Longrightarrow> freshMeta (writeCoeff r e) = freshMeta e"
  "sourceDet r \<noteq> victimDet r \<Longrightarrow> fullMeta (writeCoeff r e) v = fullMeta e v"
  "sourceDet r = victimDet r \<Longrightarrow> freshMeta e \<or> fullMeta e (victimDet r) \<Longrightarrow>
     fullMeta (writeCoeff r e) (victimDet r)"
  by (auto simp: writeCoeff_def freshMeta_def fullMeta_def)

lemma newEntry_meta: "hasCrosstalk newEntry" "freshMeta newEntry"
  by (simp_all add: newEntry_def freshMeta_def)

lemma seen_snoc:
  "victimSeen flt (ls @ [l]) v \<longleftrightarrow> victimSeen flt ls v \<or>
     (case recordOf flt l of None \<Rightarrow> False | Some r \<Rightarrow> victimDet r = v)"
  "selfSeen flt (ls @ [l]) v \<longleftrightarrow> selfSeen flt ls v \<or>
     (case recordOf flt l of None \<Rightarrow> False | Some r \<Rightarrow> victimDet r = v \<and> sourceDet r = v)"
  by (simp_all add: victimSeen_def selfSeen_def)

lemma metaInv_store_victim:
  assumes "metaInv flt ls d (victimDet r)" "recordOf flt l = Some r"
  shows "metaInv flt (ls @ [l]) (store d r) (victimDet r)"
proof -
  let ?v = "victimDet r"
  let ?e0 = "case map_of d ?v of None \<Rightarrow> newEntry | Some e \<Rightarrow> e"
  have e0: "hasCrosstalk ?e0" "if selfSeen flt ls ?v then fullMeta ?e0 ?v else freshMeta ?e0"
    using assms(1) by (auto simp: metaInv_def newEntry_meta selfSeen_def victimSeen_def
        list_ex_iff split: option.splits)
  have seen: "victimSeen flt (ls @ [l]) ?v"
    using assms(2) by (simp add: seen_snoc)
  have self: "selfSeen flt (ls @ [l]) ?v \<longleftrightarrow> selfSeen flt ls ?v \<or> sourceDet r = ?v"
    using assms(2) by (auto simp: seen_snoc)
  have "if selfSeen flt (ls @ [l]) ?v then fullMeta (writeCoeff r ?e0) ?v
        else freshMeta (writeCoeff r ?e0)"
  proof (cases "sourceDet r = ?v")
    case True
    with e0(2) self show ?thesis
      using writeCoeff_meta(4) [of r ?e0] by (auto split: if_splits)
  next
    case False
    with e0(2) self show ?thesis
      by (simp add: writeCoeff_meta)
  qed
  with seen e0(1) show ?thesis
    unfolding metaInv_def map_of_store by (simp add: writeCoeff_meta(1))
qed

lemma metaInv_store:
  assumes "metaInv flt ls d v" "recordOf flt l = Some r"
  shows "metaInv flt (ls @ [l]) (store d r) v"
proof (cases "v = victimDet r")
  case False
  with assms show ?thesis
    by (auto simp: metaInv_def map_of_store seen_snoc split: option.splits)
next
  case True
  with assms metaInv_store_victim [of flt ls d r l] show ?thesis
    by simp
qed

lemma metaInv_skip:
  assumes "metaInv flt ls d v" "recordOf flt l = None"
  shows "metaInv flt (ls @ [l]) d v"
  using assms by (auto simp: metaInv_def seen_snoc split: option.splits)

lemma metaInv_readLines:
  "readLines flt [] ls = (None, d) \<Longrightarrow> metaInv flt ls d v"
proof (induction ls arbitrary: d rule: rev_induct)
  case Nil
  then show ?case by (simp add: metaInv_def victimSeen_def)
next
  case (snoc l ls)
  from snoc.prems obtain d1 where
    d1: "readLines flt [] ls = (None, d1)" and step: "processLine flt d1 l = (None, d)"
    by (auto simp: readLines_snoc)
  have inv: "metaInv flt ls d1 v"
    using snoc.IH [OF d1] .
  show ?case
  proof (cases "recordOf flt l")
    case None
    with step have "d = d1" by (simp add: processLine_recordOf)
    with inv None show ?thesis by (simp add: metaInv_skip)
  next
    case (Some r)
    with step have "d = store d1 r" by (simp add: processLine_recordOf)
    with inv Some show ?thesis by (simp add: metaInv_store)
  qed
qed

subsection \<open>The last record of a cell\<close>

lemma readLines_ok:
  "list_all (lineOk flt) ls \<Longrightarrow> \<exists>d'. readLines flt d ls = (None, d')"
proof (induction ls arbitrary: d)
  case Nil
  show ?case by simp
next
  case (Cons l ls)
  from Cons.prems have "lineOk flt l" by simp
  then obtain d1 where "processLine flt d l = (None, d1)"
    by (auto simp: lineOk_def isComment_def recordOf_def processLine_cases split: sum.splits if_splits)
  moreover from Cons.prems Cons.IH [of d1] obtain d' where "readLines flt d1 ls = (None, d')"
    by auto
  ultimately show ?case by simp
qed

lemma lastWrite_append:
  "lastWrite flt (xs @ ys) v s i j =
     (case lastWrite flt ys v s i j of Some c \<Rightarrow> Some c | None \<Rightarrow> lastWrite flt xs v s i j)"
  by (induction xs) (auto split: option.splits)

lemma matrixAt_store:
  "matrixAt (store d r) v s = None \<longleftrightarrow>
     \<not> (v = victimDet r \<and> (s = v \<or> s = sourceDet r)) \<and> matrixAt d v s = None"
  by (auto simp: matrixAt_def map_of_store writeCoeff_def update_conv' newEntry_def
      split: option.splits if_splits)

lemma matrixAt_readLines:
  assumes "readLines flt d0 ls = (None, d)" and "matrixAt d v s = None"
  shows "matrixAt d0 v s = None \<and> \<not> observed flt ls v s i j"
  using assms
proof (induction ls arbitrary: d0)
  case Nil
  then show ?case by (simp add: observed_def)
next
  case (Cons l ls)
  from Cons.prems(1) obtain d1 where
    step: "processLine flt d0 l = (None, d1)" and rest: "readLines flt d1 ls = (None, d)"
    by (auto split: prod.splits option.splits)
  have IH: "matrixAt d1 v s = None" "\<not> observed flt ls v s i j"
    using Cons.IH [OF rest Cons.prems(2)] by simp_all
  have obs: "observed flt (l # ls) v s i j \<longleftrightarrow>
      (case recordOf flt l of None \<Rightarrow> False | Some r \<Rightarrow> targets r v s i j) \<or>
      observed flt ls v s i j"
    by (simp add: observed_def)
  show ?case
  proof (cases "recordOf flt l")
    case None
    with step IH show ?thesis
      by (simp add: processLine_recordOf obs)
  next
    case (Some r)
    with step have "d1 = store d0 r" by (simp add: processLine_recordOf)
    with IH(1) have "\<not> (v = victimDet r \<and> (s = v \<or> s = sourceDet r)) \<and> matrixAt d0 v s = None"
      by (simp add: matrixAt_store)
    with Some IH(2) show ?thesis
      by (auto simp: obs targets_def)
  qed
qed

lemma cell_matrixAt: "matrixAt d v s = Some m \<Longrightarrow> cell d v s i j = m ! i ! j"
  by (auto simp: matrixAt_def cell_def entryCell_def split: option.splits if_splits)

section \<open>The claims\<close>

text \<open>
  C1. A line that stores a record \<open>r\<close>, met in a dictionary that the earlier lines
  built, leaves an entry \<open>e1\<close> for the victim and changes no other entry. When victim
  and source are one detector, the coefficient is in \<^verbatim>\<open>coeffs\<close> at
  \<open>[victimAmp][sourceAmp]\<close>, the other cells of \<^verbatim>\<open>coeffs\<close> are as before and
  \<^verbatim>\<open>interChip\<close> is as before. When they differ, the coefficient is in
  \<^verbatim>\<open>interChip[sourceDet]\<close> at \<open>[victimAmp][sourceAmp]\<close>, the other cells of that matrix
  are as before (zero when the matrix was not there), the other matrices of
  \<^verbatim>\<open>interChip\<close> are as before and \<^verbatim>\<open>coeffs\<close> is as before. Before means: in the entry of
  the victim, or in a new entry when the victim had none.
\<close>

theorem self_or_interchip:
  assumes "readLines flt [] pre = (None, outDict)"
    and "recordOf flt line = Some r"
  shows "\<exists>outDict' e1.
     processLine flt outDict line = (None, outDict') \<and>
     map_of outDict' (victimDet r) = Some e1 \<and>
     (\<forall>k. k \<noteq> victimDet r \<longrightarrow> map_of outDict' k = map_of outDict k) \<and>
     (sourceDet r = victimDet r \<longrightarrow>
        coeffs e1 ! victimAmp r ! sourceAmp r = coeff r \<and>
        (\<forall>i<2. \<forall>j<2. (i, j) \<noteq> (victimAmp r, sourceAmp r) \<longrightarrow>
           coeffs e1 ! i ! j = coeffs (victimEntry outDict (victimDet r)) ! i ! j) \<and>
        interChip e1 = interChip (victimEntry outDict (victimDet r))) \<and>
     (sourceDet r \<noteq> victimDet r \<longrightarrow>
        (\<exists>m. map_of (interChip e1) (sourceDet r) = Some m \<and>
             m ! victimAmp r ! sourceAmp r = coeff r \<and>
             (\<forall>i<2. \<forall>j<2. (i, j) \<noteq> (victimAmp r, sourceAmp r) \<longrightarrow>
                m ! i ! j =
                  (case map_of (interChip (victimEntry outDict (victimDet r))) (sourceDet r) of
                     None \<Rightarrow> 0 | Some m0 \<Rightarrow> m0 ! i ! j))) \<and>
        (\<forall>k. k \<noteq> sourceDet r \<longrightarrow>
           map_of (interChip e1) k = map_of (interChip (victimEntry outDict (victimDet r))) k) \<and>
        coeffs e1 = coeffs (victimEntry outDict (victimDet r)))"
proof -
  let ?e0 = "victimEntry outDict (victimDet r)"
  let ?e1 = "writeCoeff r ?e0"
  have sh: "shaped outDict"
    using assms(1) by (rule shaped_reached)
  have amps: "victimAmp r < 2" "sourceAmp r < 2"
    using recordOf_amp_bound [OF assms(2)] by simp_all
  have step: "processLine flt outDict line = (None, store outDict r)"
    using assms(2) by (simp add: processLine_recordOf)
  have look: "map_of (store outDict r) (victimDet r) = Some ?e1"
    by (simp add: map_of_store victimEntry_def)
  have others: "\<forall>k. k \<noteq> victimDet r \<longrightarrow> map_of (store outDict r) k = map_of outDict k"
    by (simp add: map_of_store)
  have self: "coeffs ?e1 ! victimAmp r ! sourceAmp r = coeff r \<and>
        (\<forall>i<2. \<forall>j<2. (i, j) \<noteq> (victimAmp r, sourceAmp r) \<longrightarrow>
           coeffs ?e1 ! i ! j = coeffs ?e0 ! i ! j) \<and>
        interChip ?e1 = interChip ?e0"
    if "sourceDet r = victimDet r"
    using that amps setitem2_nth [OF shape_victimEntry(1) [OF sh] amps]
    by (simp add: writeCoeff_def)
  have inter: "(\<exists>m. map_of (interChip ?e1) (sourceDet r) = Some m \<and>
             m ! victimAmp r ! sourceAmp r = coeff r \<and>
             (\<forall>i<2. \<forall>j<2. (i, j) \<noteq> (victimAmp r, sourceAmp r) \<longrightarrow>
                m ! i ! j =
                  (case map_of (interChip ?e0) (sourceDet r) of
                     None \<Rightarrow> 0 | Some m0 \<Rightarrow> m0 ! i ! j))) \<and>
        (\<forall>k. k \<noteq> sourceDet r \<longrightarrow> map_of (interChip ?e1) k = map_of (interChip ?e0) k) \<and>
        coeffs ?e1 = coeffs ?e0"
    if ne: "sourceDet r \<noteq> victimDet r"
  proof (cases "map_of (interChip ?e0) (sourceDet r)")
    case None
    have z: "shape22 (zeros22 :: 'a matrix)"
      by (rule shape22_zeros22)
    from None ne show ?thesis
      using amps setitem2_nth [OF z amps]
      by (simp add: writeCoeff_def update_conv' zeros22_nth)
  next
    case (Some m0)
    from Some ne show ?thesis
      using amps setitem2_nth [OF shape_victimEntry(2) [OF sh Some] amps]
      by (simp add: writeCoeff_def update_conv')
  qed
  from step look others self inter show ?thesis
    by blast
qed

theorem self_or_interchip_witness:
  "readLines decimal [] [example_line1] = (None, example_after1) \<and>
   recordOf decimal example_line3 = Some example_record3 \<and>
   (\<exists>outDict' e1.
      processLine decimal example_after1 example_line3 = (None, outDict') \<and>
      map_of outDict' ''S29'' = Some e1 \<and>
      (\<exists>m. map_of (interChip e1) ''S30'' = Some m \<and> m ! 0 ! 1 = 3 / 10000) \<and>
      coeffs e1 = [[0, 3 / 2500], [0, 0]])"
proof -
  have h1: "readLines decimal [] [example_line1] = (None, example_after1)"
    by (simp add: example_line1_def example_after1_def run_defs decimal_def digit_def)
  have h2: "recordOf decimal example_line3 = Some example_record3"
    by (simp add: example_line3_def example_record3_def recordOf_def run_defs decimal_def
        digit_def)
  have r: "victimDet example_record3 = ''S29''" "sourceDet example_record3 = ''S30''"
    "victimAmp example_record3 = 0" "sourceAmp example_record3 = 1"
    "coeff example_record3 = 3 / 10000"
    by (simp_all add: example_record3_def)
  have before: "coeffs (victimEntry example_after1 ''S29'') = [[0, 3 / 2500], [0, 0]]"
    by (simp add: victimEntry_def example_after1_def)
  from self_or_interchip [OF h1 h2] obtain outDict' e1 where
    "processLine decimal example_after1 example_line3 = (None, outDict')"
    "map_of outDict' ''S29'' = Some e1"
    "\<exists>m. map_of (interChip e1) ''S30'' = Some m \<and> m ! 0 ! 1 = 3 / 10000"
    "coeffs e1 = [[0, 3 / 2500], [0, 0]]"
    unfolding r before by auto
  with h1 h2 show ?thesis
    by blast
qed

text \<open>
  C2. For a file whose lines, without the whitespace around them, are exactly
  \<^verbatim>\<open>ccd01A ccd01B 0.0012\<close>, \<^verbatim>\<open>ccd01B ccd01A 0.0009\<close> and \<^verbatim>\<open>ccd01A ccd02B 0.0003\<close>,
  \<^verbatim>\<open>readFile\<close> returns a dictionary with an entry for S29 whose \<^verbatim>\<open>coeffs\<close> is
  [[0, 0.0012], [0.0009, 0]], whose \<^verbatim>\<open>interChip["S30"]\<close> is [[0, 0.0003], [0, 0]], whose
  \<^verbatim>\<open>hasCrosstalk\<close> is true and whose metadata has DETECTOR = "S29". The floats \<open>a\<close>,
  \<open>b\<close> and \<open>c\<close> are what \<^verbatim>\<open>float\<close> returns on the three literals.
\<close>

theorem end_to_end:
  assumes "map strip (file_lines content) =
             [''ccd01A ccd01B 0.0012'', ''ccd01B ccd01A 0.0009'', ''ccd01A ccd02B 0.0003'']"
    and "flt ''0.0012'' = Some a" and "flt ''0.0009'' = Some b" and "flt ''0.0003'' = Some c"
  shows "\<exists>outDict e.
     readFile flt content = Inr outDict \<and>
     map_of outDict ''S29'' = Some e \<and>
     coeffs e = [[0, a], [b, 0]] \<and>
     map_of (interChip e) ''S30'' = Some [[0, c], [0, 0]] \<and>
     hasCrosstalk e = True \<and>
     map_of (metadata e) ''DETECTOR'' = Some ''S29''"
proof -
  let ?ls = "[''ccd01A ccd01B 0.0012'', ''ccd01B ccd01A 0.0009'', ''ccd01A ccd02B 0.0003'']"
  have "map strip ?ls = ?ls"
    by (simp add: strip_def isspace_def)
  with assms(1) have "map strip (file_lines content) = map strip ?ls"
    by simp
  then have "readLines flt [] (file_lines content) = readLines flt [] ?ls"
    by (rule readLines_strip)
  also have "\<dots> =
    (None, [(''S29'',
       \<lparr>metadata = [(''OBSTYPE'', ''CROSSTALK''), (''DETECTOR'', ''S29''),
           (''DETECTOR_SERIAL'', ''UNKNOWN'')],
        interChip = [(''S30'', [[0, c], [0, 0]])],
        crosstalkShape = (2, 2), hasCrosstalk = True, nAmp = 2,
        coeffs = [[0, a], [b, 0]], DETECTOR = Some ''S29'',
        DETECTOR_SERIAL = Some ''UNKNOWN''\<rparr>)])"
    using assms(2-4) by (simp add: run_defs)
  finally show ?thesis
    by (simp add: readFile_def)
qed

theorem end_to_end_witness:
  "map strip (file_lines example3) =
     [''ccd01A ccd01B 0.0012'', ''ccd01B ccd01A 0.0009'', ''ccd01A ccd02B 0.0003''] \<and>
   decimal ''0.0012'' = Some (3 / 2500) \<and> decimal ''0.0009'' = Some (9 / 10000) \<and>
   decimal ''0.0003'' = Some (3 / 10000) \<and>
   (\<exists>outDict e.
     readFile decimal example3 = Inr outDict \<and>
     map_of outDict ''S29'' = Some e \<and>
     coeffs e = [[0, 3 / 2500], [9 / 10000, 0]] \<and>
     map_of (interChip e) ''S30'' = Some [[0, 3 / 10000], [0, 0]] \<and>
     hasCrosstalk e = True \<and>
     map_of (metadata e) ''DETECTOR'' = Some ''S29'')"
proof -
  have h: "map strip (file_lines example3) =
     [''ccd01A ccd01B 0.0012'', ''ccd01B ccd01A 0.0009'', ''ccd01A ccd02B 0.0003'']"
    by code_simp
  from end_to_end [OF h decimal_example3] h decimal_example3 show ?thesis
    by blast
qed

text \<open>
  C3. For an entry \<open>e\<close> of the result of \<^verbatim>\<open>readFile\<close>, the \<^verbatim>\<open>coeffs\<close> of the dictionary
  that \<^verbatim>\<open>makeDetectorCrosstalk\<close> hands to \<^verbatim>\<open>CrosstalkCalib.fromDict\<close> has at \<open>[i][j]\<close>
  what \<open>e\<close> has at \<open>[j][i]\<close>, is again 2 by 2, and differs from the \<^verbatim>\<open>coeffs\<close> of \<open>e\<close>
  when that matrix is not symmetric.
\<close>

theorem transpose_contract:
  assumes "readFile flt content = Inr outDict"
    and "map_of outDict v = Some e"
  shows "(\<forall>i<2. \<forall>j<2. coeffs (fst (makeDetectorCrosstalk outDir e)) ! i ! j = coeffs e ! j ! i) \<and>
         shape22 (coeffs (fst (makeDetectorCrosstalk outDir e))) \<and>
         (coeffs e ! 0 ! 1 \<noteq> coeffs e ! 1 ! 0 \<longrightarrow>
            coeffs (fst (makeDetectorCrosstalk outDir e)) \<noteq> coeffs e)"
proof -
  have "shaped outDict"
    using assms(1) by (auto simp: readFile_Inr intro: shaped_reached)
  then have sh: "shape22 (coeffs e)"
    using assms(2) by (rule shaped_lookup(1))
  obtain a b c d where m: "coeffs e = [[a, b], [c, d]]"
    using shape22_expand [OF sh] by blast
  have t: "coeffs (fst (makeDetectorCrosstalk outDir e)) = [[a, c], [b, d]]"
    by (simp add: makeDetectorCrosstalk_def Let_def m)
  show ?thesis
    unfolding t m by (auto simp: shape22_def less_2_cases_iff)
qed

theorem transpose_contract_witness:
  "readFile decimal example3 = Inr [(''S29'', example3_S29)] \<and>
   map_of [(''S29'', example3_S29)] ''S29'' = Some example3_S29 \<and>
   coeffs example3_S29 ! 0 ! 1 \<noteq> coeffs example3_S29 ! 1 ! 0 \<and>
   coeffs (fst (makeDetectorCrosstalk ''calib'' example3_S29)) ! 0 ! 1 =
     coeffs example3_S29 ! 1 ! 0 \<and>
   coeffs (fst (makeDetectorCrosstalk ''calib'' example3_S29)) \<noteq> coeffs example3_S29"
proof -
  have h1: "readFile decimal example3 = Inr [(''S29'', example3_S29)]"
    by (rule readFile_example3)
  have h2: "map_of [(''S29'', example3_S29)] ''S29'' = Some example3_S29"
    by simp
  have h3: "coeffs example3_S29 ! 0 ! 1 \<noteq> coeffs example3_S29 ! 1 ! 0"
    by (simp add: example3_S29_def)
  from transpose_contract [OF h1 h2, of "''calib''"] h1 h2 h3 show ?thesis
    by auto
qed

text \<open>
  C4, counterexample. The table \<open>example_inter\<close> has no record of S29 with itself, and
  the metadata of the entry of S29 has OBSTYPE = "CROSSTALK" all the same: line 101 sets
  it when the entry is created.
\<close>

theorem metadata_gap_counterexample:
  "\<not> selfSeen decimal (file_lines example_inter) ''S29'' \<and>
   readFile decimal example_inter = Inr [(''S29'', example_inter_S29)] \<and>
   map_of (metadata example_inter_S29) ''OBSTYPE'' = Some ''CROSSTALK''"
  by code_simp

text \<open>
  C4, as amended. An entry of the result of \<^verbatim>\<open>readFile\<close> belongs to a detector that is
  the victim of some record, has \<^verbatim>\<open>hasCrosstalk\<close> true and has OBSTYPE = "CROSSTALK" in
  its metadata from its creation. When the file has a record of the detector with
  itself, the metadata is OBSTYPE, DETECTOR (the name of the detector) and
  DETECTOR_SERIAL = "UNKNOWN", and the keys \<^verbatim>\<open>'DETECTOR'\<close> and \<^verbatim>\<open>'DETECTOR_SERIAL'\<close> of
  the entry are set likewise. When it has none, the metadata is OBSTYPE alone and the
  four DETECTOR fields are unset.
\<close>

theorem metadata_gap:
  assumes "readFile flt content = Inr outDict"
    and "map_of outDict v = Some e"
  shows "victimSeen flt (file_lines content) v \<and>
         hasCrosstalk e = True \<and>
         map_of (metadata e) ''OBSTYPE'' = Some ''CROSSTALK'' \<and>
         (if selfSeen flt (file_lines content) v
          then metadata e = [(''OBSTYPE'', ''CROSSTALK''), (''DETECTOR'', v),
                             (''DETECTOR_SERIAL'', ''UNKNOWN'')] \<and>
               DETECTOR e = Some v \<and> DETECTOR_SERIAL e = Some ''UNKNOWN''
          else metadata e = [(''OBSTYPE'', ''CROSSTALK'')] \<and>
               map_of (metadata e) ''DETECTOR'' = None \<and>
               map_of (metadata e) ''DETECTOR_SERIAL'' = None \<and>
               DETECTOR e = None \<and> DETECTOR_SERIAL e = None)"
proof -
  from assms(1) have "readLines flt [] (file_lines content) = (None, outDict)"
    by (simp add: readFile_Inr)
  then have "metaInv flt (file_lines content) outDict v"
    by (rule metaInv_readLines)
  with assms(2) show ?thesis
    by (auto simp: metaInv_def freshMeta_def fullMeta_def)
qed

theorem metadata_gap_witness:
  "readFile decimal example_inter = Inr [(''S29'', example_inter_S29)] \<and>
   map_of [(''S29'', example_inter_S29)] ''S29'' = Some example_inter_S29 \<and>
   \<not> selfSeen decimal (file_lines example_inter) ''S29'' \<and>
   victimSeen decimal (file_lines example_inter) ''S29'' \<and>
   hasCrosstalk example_inter_S29 = True \<and>
   map_of (metadata example_inter_S29) ''DETECTOR'' = None \<and>
   DETECTOR example_inter_S29 = None"
proof -
  have h1: "readFile decimal example_inter = Inr [(''S29'', example_inter_S29)]"
    by (simp add: example_inter_def example_inter_S29_def readFile_def run_defs decimal_def
        digit_def)
  have h2: "map_of [(''S29'', example_inter_S29)] ''S29'' = Some example_inter_S29"
    by simp
  have h3: "\<not> selfSeen decimal (file_lines example_inter) ''S29''"
    by code_simp
  from metadata_gap [OF h1 h2] h1 h2 h3 show ?thesis
    by simp
qed

text \<open>
  C5, counterexample. In the table \<open>example_blank\<close> every line that is not blank stores
  a record, and \<^verbatim>\<open>readFile\<close> raises \<^verbatim>\<open>IndexError\<close> at the blank line; without the blank
  line the same table is read to the end.
\<close>

theorem blank_line_counterexample:
  "okApartFromBlank decimal (file_lines example_blank) \<and>
   readFile decimal example_blank = Inl IndexError \<and>
   readFile decimal example_blank \<noteq>
     readFile decimal (concat (dropBlank (file_lines example_blank)))"
  by code_simp

text \<open>
  C5, as amended. A blank line is not skipped: met in a dictionary that the earlier
  lines built, it raises \<^verbatim>\<open>IndexError\<close> (too few tokens) and leaves the dictionary as it
  was, so \<^verbatim>\<open>readFile\<close> raises \<^verbatim>\<open>IndexError\<close>. Comment lines are skipped: reading a list
  of lines gives what reading it without its comment lines gives.
\<close>

theorem blank_line_raises:
  assumes "readLines flt [] pre = (None, d)"
    and "blank line"
  shows "processLine flt d line = (Some IndexError, d) \<and>
         readLines flt [] (pre @ line # post) = (Some IndexError, d) \<and>
         (file_lines content = pre @ line # post \<longrightarrow> readFile flt content = Inl IndexError) \<and>
         readLines flt [] (dropComments ls) = readLines flt [] ls"
proof -
  have raise: "processLine flt d line = (Some IndexError, d)"
    using assms(2) by (rule processLine_blank)
  have run: "readLines flt [] (pre @ line # post) = (Some IndexError, d)"
    using readLines_snoc_raise [OF assms(1) raise] .
  then have "file_lines content = pre @ line # post \<longrightarrow> readFile flt content = Inl IndexError"
    by (auto simp: readFile_Inl)
  with raise run show ?thesis
    by (simp add: readLines_dropComments)
qed

theorem blank_line_raises_witness:
  "readLines decimal [] [example_line1] = (None, example_after1) \<and>
   blank ''\<newline>'' \<and>
   processLine decimal example_after1 ''\<newline>'' = (Some IndexError, example_after1) \<and>
   readLines decimal [] ([example_line1] @ ''\<newline>'' # [example_line3]) =
     (Some IndexError, example_after1)"
proof -
  have h1: "readLines decimal [] [example_line1] = (None, example_after1)"
    by (simp add: example_line1_def example_after1_def run_defs decimal_def digit_def)
  have h2: "blank ''\<newline>''"
    by (simp add: blank_def isspace_def)
  from blank_line_raises [OF h1 h2, of "[example_line3]" example_blank "[]"] h1 h2
  show ?thesis
    by simp
qed

text \<open>
  C6, counterexample. In the token \<^verbatim>\<open>ccd01BA\<close> the first of the two letters from the left
  is \<open>B\<close>, and \<^verbatim>\<open>readFile\<close> takes the amplifier to be \<open>A\<close>: the label it then looks up,
  and reports in the \<^verbatim>\<open>KeyError\<close>, is \<^verbatim>\<open>ccd01B\<close>.
\<close>

theorem amp_label_counterexample:
  "ampOf ''ccd01BA'' = Inr (CHR ''A'') \<and>
   ampOf_spec ''ccd01BA'' = Inr (CHR ''B'') \<and>
   readFile decimal ''ccd01BA ccd02A 0.001'' = Inl (KeyError ''ccd01B'')"
  by (simp add: ampOf_spec_def readFile_def run_defs decimal_def digit_def)

text \<open>
  C6, as amended. The amplifier of a token is \<open>A\<close> whenever the token has an \<open>A\<close>, also
  after a \<open>B\<close>; otherwise it is what the scan from the left finds, that is \<open>B\<close> when the
  token has a \<open>B\<close>. The match is exact: \<^verbatim>\<open>ccd01a\<close> has no amplifier. A token has no
  amplifier exactly when it has neither letter, and the error is then the
  \<^verbatim>\<open>RuntimeError\<close> "Unknown amp: " with the token. On a line that is no comment, has
  three tokens and a coefficient that \<^verbatim>\<open>float\<close> accepts, and whose victim or source
  token has neither letter, the loop body raises that error for the first such token and
  leaves the dictionary as it was. The line \<^verbatim>\<open>ccd01X ccd02A 0.001\<close> makes \<^verbatim>\<open>readFile\<close>
  raise it for \<^verbatim>\<open>ccd01X\<close>.
\<close>

theorem amp_label:
  assumes "\<not> isComment line"
    and "split (strip line) = vtok # stok # ctok # rest"
    and "flt ctok = Some c"
    and "CHR ''A'' \<notin> set vtok \<and> CHR ''B'' \<notin> set vtok \<or>
         CHR ''A'' \<notin> set stok \<and> CHR ''B'' \<notin> set stok"
  shows "ampOf t = (if CHR ''A'' \<in> set t then Inr (CHR ''A'') else ampOf_spec t) \<and>
         (ampOf t = Inl err \<longleftrightarrow>
            CHR ''A'' \<notin> set t \<and> CHR ''B'' \<notin> set t \<and> err = RuntimeError (''Unknown amp: '' @ t)) \<and>
         ampOf ''ccd01a'' = Inl (RuntimeError ''Unknown amp: ccd01a'') \<and>
         (\<exists>tok. (tok = vtok \<or> tok = stok) \<and> CHR ''A'' \<notin> set tok \<and> CHR ''B'' \<notin> set tok \<and>
            processLine flt d line = (Some (RuntimeError (''Unknown amp: '' @ tok)), d)) \<and>
         (\<forall>x. flt ''0.001'' = Some x \<longrightarrow>
            readFile flt ''ccd01X ccd02A 0.001'' = Inl (RuntimeError ''Unknown amp: ccd01X''))"
proof -
  have label: "ampOf t = (if CHR ''A'' \<in> set t then Inr (CHR ''A'') else ampOf_spec t)"
    using ampOf_without_A [of t] by (simp add: ampOf_def)
  have lower: "ampOf ''ccd01a'' = Inl (RuntimeError ''Unknown amp: ccd01a'')"
    by (simp add: ampOf_def)
  define tok where "tok = (if CHR ''A'' \<notin> set vtok \<and> CHR ''B'' \<notin> set vtok then vtok else stok)"
  have tok: "(tok = vtok \<or> tok = stok) \<and> CHR ''A'' \<notin> set tok \<and> CHR ''B'' \<notin> set tok"
    using assms(4) by (auto simp: tok_def)
  have "parseLine flt (strip line) = Inl (RuntimeError (''Unknown amp: '' @ tok))"
  proof (cases "CHR ''A'' \<notin> set vtok \<and> CHR ''B'' \<notin> set vtok")
    case True
    then show ?thesis
      using assms(2,3) by (simp add: parseLine_def tok_def ampOf_def)
  next
    case False
    then have "\<exists>va. ampOf vtok = Inr va"
      by (cases "CHR ''A'' \<in> set vtok") (simp_all add: ampOf_def)
    then obtain va where va: "ampOf vtok = Inr va" ..
    have "ampOf stok = Inl (RuntimeError (''Unknown amp: '' @ stok))"
      using False assms(4) by (auto simp: ampOf_def)
    moreover from False have "tok = stok"
      by (auto simp: tok_def)
    ultimately show ?thesis
      using va assms(2,3) by (simp add: parseLine_def)
  qed
  then have raise: "processLine flt d line = (Some (RuntimeError (''Unknown amp: '' @ tok)), d)"
    using assms(1) by (simp add: processLine_raise isComment_def)
  have ex: "readFile flt ''ccd01X ccd02A 0.001'' = Inl (RuntimeError ''Unknown amp: ccd01X'')"
    if "flt ''0.001'' = Some x" for x
    using that by (simp add: readFile_def run_defs)
  from label ampOf_Inl [of t err] lower tok raise ex show ?thesis
    by blast
qed

theorem amp_label_witness:
  "\<not> isComment ''ccd01X ccd02A 0.001'' \<and>
   split (strip ''ccd01X ccd02A 0.001'') = [''ccd01X'', ''ccd02A'', ''0.001''] \<and>
   decimal ''0.001'' = Some (1 / 1000) \<and>
   (CHR ''A'' \<notin> set ''ccd01X'' \<and> CHR ''B'' \<notin> set ''ccd01X'') \<and>
   processLine decimal [] ''ccd01X ccd02A 0.001'' =
     (Some (RuntimeError ''Unknown amp: ccd01X''), []) \<and>
   readFile decimal ''ccd01X ccd02A 0.001'' = Inl (RuntimeError ''Unknown amp: ccd01X'')"
proof -
  have h1: "\<not> isComment ''ccd01X ccd02A 0.001''"
    by code_simp
  have h2: "split (strip ''ccd01X ccd02A 0.001'') = ''ccd01X'' # ''ccd02A'' # ''0.001'' # []"
    by code_simp
  have h3: "decimal ''0.001'' = Some (1 / 1000)"
    by (simp add: decimal_def digit_def)
  have h4: "CHR ''A'' \<notin> set ''ccd01X'' \<and> CHR ''B'' \<notin> set ''ccd01X''"
    by simp
  have h5: "CHR ''A'' \<in> set ''ccd02A''"
    by simp
  note t = amp_label [where line = "''ccd01X ccd02A 0.001''" and vtok = "''ccd01X''"
      and stok = "''ccd02A''" and ctok = "''0.001''" and rest = "[]" and flt = decimal
      and c = "1 / 1000" and t = "[]" and err = IndexError and d = "[]",
      OF h1 h2 h3 disjI1 [OF h4]]
  from t obtain tok where tok: "tok = ''ccd01X'' \<or> tok = ''ccd02A''" "CHR ''A'' \<notin> set tok"
    "processLine decimal [] ''ccd01X ccd02A 0.001'' =
       (Some (RuntimeError (''Unknown amp: '' @ tok)), [])"
    by blast
  from tok(1,2) h5 have "tok = ''ccd01X''"
    by blast
  with tok(3) have p: "processLine decimal [] ''ccd01X ccd02A 0.001'' =
     (Some (RuntimeError ''Unknown amp: ccd01X''), [])"
    by simp
  from t h3 have r: "readFile decimal ''ccd01X ccd02A 0.001'' =
     Inl (RuntimeError ''Unknown amp: ccd01X'')"
    by blast
  from h1 h2 h3 h4 p r show ?thesis
    by simp
qed

text \<open>
  C7. The table \<open>detMap\<close> has 62 entries. On a line that is no comment, has three
  tokens, a coefficient that \<^verbatim>\<open>float\<close> accepts and an amplifier in both tokens, and on
  which the victim or the source token without its amplifier letter is no key of
  \<open>detMap\<close>, the loop raises \<^verbatim>\<open>KeyError\<close> with the first such label and the dictionary is
  as the earlier lines built it, so \<^verbatim>\<open>readFile\<close> raises that \<^verbatim>\<open>KeyError\<close>. The one-line
  file \<^verbatim>\<open>ccd99A ccd01A 0.001\<close> raises \<^verbatim>\<open>KeyError\<close> with \<^verbatim>\<open>ccd99\<close>, and the dictionary is
  empty when it does.
\<close>

theorem unknown_detector:
  assumes "readLines flt [] pre = (None, d)"
    and "\<not> isComment line"
    and "split (strip line) = vtok # stok # ctok # rest"
    and "flt ctok = Some c"
    and "ampOf vtok = Inr va" and "ampOf stok = Inr sa"
    and "map_of detMap (replace_empty va vtok) = None \<or>
         map_of detMap (replace_empty sa stok) = None"
  shows "length detMap = 62 \<and>
         (\<exists>k. map_of detMap k = None \<and>
              (k = replace_empty va vtok \<or> k = replace_empty sa stok) \<and>
              readLines flt [] (pre @ line # post) = (Some (KeyError k), d) \<and>
              (file_lines content = pre @ line # post \<longrightarrow>
                 readFile flt content = Inl (KeyError k))) \<and>
         (\<forall>x. flt ''0.001'' = Some x \<longrightarrow>
              readLines flt [] (file_lines ''ccd99A ccd01A 0.001'') = (Some (KeyError ''ccd99''), []) \<and>
              readFile flt ''ccd99A ccd01A 0.001'' = Inl (KeyError ''ccd99''))"
proof -
  have len: "length detMap = 62"
    by (simp add: detMap_def)
  define k where "k = (if map_of detMap (replace_empty va vtok) = None
                       then replace_empty va vtok else replace_empty sa stok)"
  have k: "map_of detMap k = None" "k = replace_empty va vtok \<or> k = replace_empty sa stok"
    using assms(7) by (auto simp: k_def)
  have "parseLine flt (strip line) = Inl (KeyError k)"
    using assms(3-7) by (auto simp: parseLine_def k_def split: option.splits)
  then have "processLine flt d line = (Some (KeyError k), d)"
    using assms(2) by (simp add: processLine_raise isComment_def)
  then have run: "readLines flt [] (pre @ line # post) = (Some (KeyError k), d)"
    using readLines_snoc_raise [OF assms(1)] by simp
  then have fl: "file_lines content = pre @ line # post \<longrightarrow>
                 readFile flt content = Inl (KeyError k)"
    by (auto simp: readFile_Inl)
  have ex: "readLines flt [] (file_lines ''ccd99A ccd01A 0.001'') = (Some (KeyError ''ccd99''), []) \<and>
              readFile flt ''ccd99A ccd01A 0.001'' = Inl (KeyError ''ccd99'')"
    if "flt ''0.001'' = Some x" for x
    using that by (simp add: readFile_def run_defs)
  from len k run fl ex show ?thesis
    by blast
qed

theorem unknown_detector_witness:
  "readLines decimal [] [] = (None, []) \<and>
   \<not> isComment ''ccd99A ccd01A 0.001'' \<and>
   split (strip ''ccd99A ccd01A 0.001'') = [''ccd99A'', ''ccd01A'', ''0.001''] \<and>
   decimal ''0.001'' = Some (1 / 1000) \<and>
   ampOf ''ccd99A'' = Inr (CHR ''A'') \<and>
   ampOf ''ccd01A'' = Inr (CHR ''A'') \<and>
   map_of detMap (replace_empty (CHR ''A'') ''ccd99A'') = None \<and>
   length detMap = 62 \<and>
   readLines decimal [] (file_lines ''ccd99A ccd01A 0.001'') = (Some (KeyError ''ccd99''), []) \<and>
   readFile decimal ''ccd99A ccd01A 0.001'' = Inl (KeyError ''ccd99'')"
proof -
  have h1: "readLines decimal [] [] = (None, [])"
    by simp
  have h2: "\<not> isComment ''ccd99A ccd01A 0.001''"
    by code_simp
  have h3: "split (strip ''ccd99A ccd01A 0.001'') = ''ccd99A'' # ''ccd01A'' # ''0.001'' # []"
    by code_simp
  have h4: "decimal ''0.001'' = Some (1 / 1000)"
    by (simp add: decimal_def digit_def)
  have h5: "ampOf ''ccd99A'' = Inr (CHR ''A'')" and h6: "ampOf ''ccd01A'' = Inr (CHR ''A'')"
    by (simp_all add: ampOf_def)
  have h7: "map_of detMap (replace_empty (CHR ''A'') ''ccd99A'') = None"
    by (simp add: detMap_def replace_empty_def)
  note t = unknown_detector [OF h1 h2 h3 h4 h5 h6 disjI1 [OF h7], of "[]" "[]"]
  from t have len: "length detMap = 62"
    by blast
  from t h4 have r: "readLines decimal [] (file_lines ''ccd99A ccd01A 0.001'') =
       (Some (KeyError ''ccd99''), []) \<and>
     readFile decimal ''ccd99A ccd01A 0.001'' = Inl (KeyError ''ccd99'')"
    by blast
  from h1 h2 h3 h4 h5 h6 h7 len r show ?thesis
    by simp
qed

text \<open>
  C8. Let every line of a file be a comment or store a record, let two of its lines
  store records for the same cell \<open>[i][j]\<close> of what victim \<open>v\<close> gets from source \<open>s\<close>,
  with different coefficients, and let no line after the second store a record for that
  cell. Then \<^verbatim>\<open>readFile\<close> returns a dictionary, without an error, and the cell of the
  matrix holds the coefficient of the second line and not that of the first.
\<close>

theorem last_write_wins:
  assumes "file_lines content = pre @ l1 # mid @ l2 # post"
    and "list_all (lineOk flt) (file_lines content)"
    and "recordOf flt l1 = Some r1" and "recordOf flt l2 = Some r2"
    and "targets r1 v s i j" and "targets r2 v s i j"
    and "coeff r1 \<noteq> coeff r2"
    and "\<not> observed flt post v s i j"
  shows "\<exists>outDict m.
           readFile flt content = Inr outDict \<and>
           matrixAt outDict v s = Some m \<and>
           m ! i ! j = coeff r2 \<and> m ! i ! j \<noteq> coeff r1"
proof -
  let ?ls = "pre @ l1 # mid @ l2 # post"
  obtain d where run: "readLines flt [] ?ls = (None, d)"
    using readLines_ok [of flt ?ls "[]"] assms(1,2) by auto
  have ij: "i < 2" "j < 2"
    using recordOf_amp_bound [OF assms(4)] assms(6) by (auto simp: targets_def)
  have "lastWrite flt post v s i j = None"
    using assms(8) by (simp add: lastWrite_None)
  then have "lastWrite flt (l2 # post) v s i j = Some (coeff r2)"
    using assms(4,6) by simp
  then have "lastWrite flt ((pre @ l1 # mid) @ l2 # post) v s i j = Some (coeff r2)"
    by (simp only: lastWrite_append option.case)
  then have last: "lastWrite flt ?ls v s i j = Some (coeff r2)"
    by simp
  have c: "cell d v s i j = coeff r2"
    using cell_readLines [OF run shaped_Nil ij, of v s] last by simp
  have "observed flt ?ls v s i j"
    using assms(4,6) by (simp add: observed_def)
  then have "matrixAt d v s \<noteq> None"
    using matrixAt_readLines [OF run, of v s i j] by blast
  then obtain m where m: "matrixAt d v s = Some m"
    by auto
  with c have "m ! i ! j = coeff r2"
    by (simp add: cell_matrixAt)
  with m run assms(1,7) show ?thesis
    by (auto simp: readFile_Inr)
qed

theorem last_write_wins_witness:
  "file_lines (example_dup1 @ example_dup2) = [] @ example_dup1 # [] @ example_dup2 # [] \<and>
   list_all (lineOk decimal) (file_lines (example_dup1 @ example_dup2)) \<and>
   recordOf decimal example_dup1 = Some example_dup_record1 \<and>
   recordOf decimal example_dup2 = Some example_dup_record2 \<and>
   targets example_dup_record1 ''S29'' ''S29'' 0 1 \<and>
   targets example_dup_record2 ''S29'' ''S29'' 0 1 \<and>
   coeff example_dup_record1 \<noteq> coeff example_dup_record2 \<and>
   \<not> observed decimal [] ''S29'' ''S29'' 0 1 \<and>
   (\<exists>outDict m.
      readFile decimal (example_dup1 @ example_dup2) = Inr outDict \<and>
      matrixAt outDict ''S29'' ''S29'' = Some m \<and> m ! 0 ! 1 = 17 / 5000)"
proof -
  have h1: "file_lines (example_dup1 @ example_dup2) =
      [] @ example_dup1 # [] @ example_dup2 # []"
    by (simp add: example_dup1_def example_dup2_def)
  have h3: "recordOf decimal example_dup1 = Some example_dup_record1"
    by (simp add: example_dup1_def example_dup_record1_def recordOf_def run_defs decimal_def
        digit_def)
  have h4: "recordOf decimal example_dup2 = Some example_dup_record2"
    by (simp add: example_dup2_def example_dup_record2_def recordOf_def run_defs decimal_def
        digit_def)
  have h2: "list_all (lineOk decimal) (file_lines (example_dup1 @ example_dup2))"
    unfolding h1 using h3 h4 by (simp add: lineOk_def)
  have h5: "targets example_dup_record1 ''S29'' ''S29'' 0 1"
    and h6: "targets example_dup_record2 ''S29'' ''S29'' 0 1"
    by (simp_all add: targets_def example_dup_record1_def example_dup_record2_def)
  have h7: "coeff example_dup_record1 \<noteq> coeff example_dup_record2"
    by (simp add: example_dup_record1_def example_dup_record2_def)
  have h8: "\<not> observed decimal [] ''S29'' ''S29'' 0 1"
    by (simp add: observed_def)
  have c: "coeff example_dup_record2 = 17 / 5000"
    by (simp add: example_dup_record2_def)
  from last_write_wins [OF h1 h2 h3 h4 h5 h6 h7 h8] c h1 h2 h3 h4 h5 h6 h7 h8
  show ?thesis
    by auto
qed

text \<open>
  C9. In the result of \<^verbatim>\<open>readFile\<close>, a cell \<open>[i][j]\<close> of the \<^verbatim>\<open>coeffs\<close> of a victim, or of
  one of its \<^verbatim>\<open>interChip\<close> matrices, for which no line of the file has a record, is 0.
\<close>

theorem zero_fill:
  assumes "readFile flt content = Inr outDict"
    and "map_of outDict v = Some e"
    and "i < 2" and "j < 2"
  shows "(\<not> observed flt (file_lines content) v v i j \<longrightarrow> coeffs e ! i ! j = 0) \<and>
         (\<forall>s m. map_of (interChip e) s = Some m \<and> \<not> observed flt (file_lines content) v s i j
                \<longrightarrow> m ! i ! j = 0)"
proof -
  from assms(1) have run: "readLines flt [] (file_lines content) = (None, outDict)"
    by (simp add: readFile_Inr)
  have self: "coeffs e ! i ! j = 0" if "\<not> observed flt (file_lines content) v v i j"
    using cell_unobserved [OF run that assms(3,4)] assms(2)
    by (simp add: cell_def entryCell_def)
  have inter: "m ! i ! j = 0"
    if m: "map_of (interChip e) s = Some m" and no: "\<not> observed flt (file_lines content) v s i j"
    for s m
  proof -
    from m interForeign_reached [OF run assms(2)] have "s \<noteq> v" by auto
    with cell_unobserved [OF run no assms(3,4)] assms(2) m show ?thesis
      by (simp add: cell_def entryCell_def)
  qed
  from self inter show ?thesis by blast
qed

theorem zero_fill_witness:
  "readFile decimal example3 = Inr [(''S29'', example3_S29)] \<and>
   map_of [(''S29'', example3_S29)] ''S29'' = Some example3_S29 \<and>
   (1 :: nat) < 2 \<and>
   \<not> observed decimal (file_lines example3) ''S29'' ''S29'' 1 1 \<and>
   coeffs example3_S29 ! 1 ! 1 = 0 \<and>
   map_of (interChip example3_S29) ''S30'' = Some [[0, 3 / 10000], [0, 0]] \<and>
   \<not> observed decimal (file_lines example3) ''S29'' ''S30'' 1 1 \<and>
   [[0, 3 / 10000], [0, 0 :: rat]] ! 1 ! 1 = 0"
proof -
  have h1: "readFile decimal example3 = Inr [(''S29'', example3_S29)]"
    by (rule readFile_example3)
  have h2: "map_of [(''S29'', example3_S29)] ''S29'' = Some example3_S29"
    by simp
  have h3: "(1 :: nat) < 2"
    by simp
  have n1: "\<not> observed decimal (file_lines example3) ''S29'' ''S29'' 1 1"
    by code_simp
  have n2: "\<not> observed decimal (file_lines example3) ''S29'' ''S30'' 1 1"
    by code_simp
  have m: "map_of (interChip example3_S29) ''S30'' = Some [[0, 3 / 10000], [0, 0]]"
    by (simp add: example3_S29_def)
  from zero_fill [OF h1 h2 h3 h3] n1 n2 m h1 h2 h3 show ?thesis
    by (simp add: example3_S29_def)
qed

text \<open>
  C10. When the loop body raises on a line, met in the dictionary \<open>d\<close> that the earlier
  lines built, the dictionary at the raise is \<open>d\<close>, the loop ends there with that error
  and so does \<^verbatim>\<open>readFile\<close>. The line raises the same error in any dictionary, since the
  tokens, the coefficient, the amplifiers and the detectors are all read before the
  first write. The error is \<^verbatim>\<open>IndexError\<close> (too few tokens), \<^verbatim>\<open>ValueError\<close> on a token
  that \<^verbatim>\<open>float\<close> refuses, the \<^verbatim>\<open>RuntimeError\<close> of a token with neither \<open>A\<close> nor \<open>B\<close>, or
  \<^verbatim>\<open>KeyError\<close> on a label that is no key of \<open>detMap\<close>.
\<close>

theorem line_atomicity:
  assumes "readLines flt [] pre = (None, d)"
    and "processLine flt d line = (Some err, d')"
  shows "d' = d \<and>
         readLines flt [] (pre @ line # post) = (Some err, d) \<and>
         (file_lines content = pre @ line # post \<longrightarrow> readFile flt content = Inl err) \<and>
         (\<forall>d2. processLine flt d2 line = (Some err, d2)) \<and>
         (err = IndexError \<or>
          (\<exists>t. err = ValueError t \<and> flt t = None) \<or>
          (\<exists>t. err = RuntimeError (''Unknown amp: '' @ t) \<and>
               CHR ''A'' \<notin> set t \<and> CHR ''B'' \<notin> set t) \<or>
          (\<exists>k. err = KeyError k \<and> map_of detMap k = None))"
proof -
  from assms(2) have line: "\<not> startswith_hash (strip line)"
    "parseLine flt (strip line) = Inl err" and same: "d' = d"
    by (simp_all add: processLine_raise)
  have run: "readLines flt [] (pre @ line # post) = (Some err, d)"
    using readLines_snoc_raise [OF assms] same by simp
  then have fl: "file_lines content = pre @ line # post \<longrightarrow> readFile flt content = Inl err"
    by (auto simp: readFile_Inl)
  have any: "\<forall>d2. processLine flt d2 line = (Some err, d2)"
    using line by (simp add: processLine_raise)
  from same run fl any parseLine_errors [OF line(2)] show ?thesis
    by blast
qed

theorem line_atomicity_witness:
  "readLines decimal [] [example_line1] = (None, example_after1) \<and>
   processLine decimal example_after1 ''ccd01A ccd02B abc\<newline>'' =
     (Some (ValueError ''abc''), example_after1) \<and>
   readLines decimal [] ([example_line1] @ ''ccd01A ccd02B abc\<newline>'' # [example_line3]) =
     (Some (ValueError ''abc''), example_after1)"
proof -
  have h1: "readLines decimal [] [example_line1] = (None, example_after1)"
    by (simp add: example_line1_def example_after1_def run_defs decimal_def digit_def)
  have h2: "processLine decimal example_after1 ''ccd01A ccd02B abc\<newline>'' =
     (Some (ValueError ''abc''), example_after1)"
    by (simp add: run_defs decimal_def digit_def)
  from line_atomicity [OF h1 h2, of "[example_line3]" example3] h1 h2 show ?thesis
    by simp
qed

end
